theory Spec2Isabelle
  imports Main "HOL-Library.Sublist"
begin

section \<open>Values, exceptions and observable events\<close>

text \<open>
  Positional arguments are a list of strings, keyword arguments an association list
  (the order of \<^verbatim>\<open>kwargs.iteritems()\<close> is the order of the list).
\<close>

type_synonym args = "string list"
type_synonym kwargs = "(string \<times> string) list"

text \<open>
  The exceptions the two modules raise or let through: \<^verbatim>\<open>InterruptRequest\<close>
  (middleware\_request.py, line 7), \<^verbatim>\<open>HTTPError(status)\<close> (line 111), the
  \<^verbatim>\<open>AssertionError\<close> of decorators.py line 90, the \<^verbatim>\<open>AttributeError\<close> of a failed
  \<^verbatim>\<open>getattr\<close> (line 141), and any other exception of user code.
\<close>

datatype exn = InterruptRequest | HTTPError nat | AssertionError | AttributeError | Exception string

text \<open>The three stage methods of a middleware, and the callables a Task can run.\<close>

datatype stage = Before | After | After_finish

datatype label = Stage stage string | Action string | Callable string

text \<open>
  What a dispatch does to the outside, in order: calls of the handler collaborator
  (\<^verbatim>\<open>check_xsrf_cookie\<close>, \<^verbatim>\<open>prepare\<close>, \<^verbatim>\<open>decode_argument\<close>, the base class's
  \<^verbatim>\<open>redirect\<close> and \<^verbatim>\<open>finish\<close>), constructions of middleware, entries into user
  callables, calls of the overridden \<^verbatim>\<open>redirect\<close>, and invocations of completion callbacks.
\<close>

datatype event =
    Ev_check_xsrf_cookie
  | Ev_prepare
  | Ev_decode_argument string "string option"
  | Ev_construct string
  | Ev_call label args kwargs
  | Ev_redirect args kwargs
  | Ev_super_redirect args kwargs
  | Ev_super_finish
  | Ev_result_callback
  | Ev_callback string

section \<open>The handler state and its operations (middleware\_request.py, lines 69--92)\<close>

record handler =
  called_once :: bool
  redirection :: "(args \<times> kwargs) option"
  cached_args :: "(args \<times> kwargs) option"
  finished :: bool
  transforms :: "string list"

text \<open>\<^verbatim>\<open>__init__\<close>, lines 69--78; \<^verbatim>\<open>_finished\<close> is False in a new RequestHandler.\<close>

definition init_handler :: handler where
  "init_handler =
     \<lparr>called_once = False, redirection = None, cached_args = None, finished = False,
      transforms = []\<rparr>"

text \<open>\<^verbatim>\<open>redirect\<close>, lines 80--81: only records the directive.\<close>

definition redirect :: "args \<Rightarrow> kwargs \<Rightarrow> handler \<Rightarrow> handler \<times> event list" where
  "redirect a kw h = (h\<lparr>redirection := Some (a, kw)\<rparr>, [Ev_redirect a kw])"

text \<open>\<^verbatim>\<open>finish\<close>, lines 83--84: does nothing.\<close>

definition finish :: "handler \<Rightarrow> handler \<times> event list" where
  "finish h = (h, [])"

text \<open>
  \<^verbatim>\<open>try_redirect\<close>, lines 86--89. The pair \<^verbatim>\<open>(a, kw)\<close> is a non-empty tuple, so
  \<^verbatim>\<open>if self._redirection\<close> is true exactly when a directive was recorded. The base
  class's \<^verbatim>\<open>redirect\<close> (tornado, not part of this repository) first raises
  \<^verbatim>\<open>Exception("Cannot redirect after headers have been written")\<close> when the headers
  are written. In this model they are written exactly when the response is finished:
  the base class's \<^verbatim>\<open>finish\<close> writes them, and no other operation of the model does.
  Otherwise the base class's \<^verbatim>\<open>redirect\<close> sets the status and the location and ends by
  calling \<^verbatim>\<open>self.finish()\<close>, which is the override of line 83
  and does nothing, so \<^verbatim>\<open>_finished\<close> is left as it is. \<open>Ev_super_redirect\<close> records the
  call of line 89, whether it raises or not; the first component is the exception, if any.
\<close>

definition try_redirect :: "handler \<Rightarrow> exn option \<times> handler \<times> event list" where
  "try_redirect h =
     (case redirection h of
        Some (a, kw) \<Rightarrow>
          (if finished h
           then (Some (Exception ''Cannot redirect after headers have been written''), h,
                 [Ev_super_redirect a kw])
           else (None, h, [Ev_super_redirect a kw]))
      | None \<Rightarrow> (None, h, []))"

text \<open>
  \<^verbatim>\<open>do_finish\<close>, lines 91--92: the base class's \<^verbatim>\<open>finish\<close>, which raises
  \<^verbatim>\<open>RuntimeError("finish() called twice")\<close> on a finished response and sets
  \<^verbatim>\<open>_finished\<close> otherwise. \<open>Ev_super_finish\<close> records the call of line 92.
\<close>

definition do_finish :: "handler \<Rightarrow> exn option \<times> handler \<times> event list" where
  "do_finish h =
     (if finished h then (Some (Exception ''finish() called twice''), h, [Ev_super_finish])
      else (None, h\<lparr>finished := True\<rparr>, [Ev_super_finish]))"

section \<open>User callables\<close>

text \<open>
  Stage methods, action methods and \<^verbatim>\<open>prepare\<close> are user code, a parameter of the
  program. A callable is modelled by what it does to the handler when run: the handler
  operations it calls, in order, and how it ends. The operations are calls that return:
  \<open>Call_redirect\<close> is \<^verbatim>\<open>self.redirect(*a, **kw)\<close>, \<open>Call_finish\<close> is
  \<^verbatim>\<open>self.finish()\<close>, and \<open>Call_do_finish\<close> is \<^verbatim>\<open>self.do_finish()\<close> made only on a
  response that is not finished yet (\<^verbatim>\<open>if not self._finished: self.do_finish()\<close>, the
  guard of line 156); a call that raises is how the callable ends, not an operation.
  A generator is the same, cut at its \<^verbatim>\<open>yield\<close>s: \<open>Gen_yield\<close> is a yield point whose
  result is ready at once, so that the driver goes on in the same call; \<open>Gen_suspend\<close>
  is one whose result arrives later, so that the driver returns to its caller and is
  resumed from the event loop; \<open>Gen_pending\<close> is one whose result never arrives. An
  exception thrown into the generator at a yield point and not caught there is
  \<open>Gen_raise\<close>.
\<close>

datatype cmd = Call_redirect args kwargs | Call_finish | Call_do_finish

datatype gen =
    Stop_iteration
  | Gen_raise exn
  | Gen_do cmd gen
  | Gen_yield gen
  | Gen_suspend gen
  | Gen_pending

datatype func_result = Return_None | Return_value | Raise exn | Return_generator gen

datatype func = Func (body: "cmd list") (result: func_result)

fun exec_cmd :: "cmd \<Rightarrow> handler \<Rightarrow> handler \<times> event list" where
  "exec_cmd (Call_redirect a kw) h = redirect a kw h"
| "exec_cmd Call_finish h = finish h"
| "exec_cmd Call_do_finish h =
     (if finished h then (h, []) else (let (err, h1, e1) = do_finish h in (h1, e1)))"

fun run_cmds :: "cmd list \<Rightarrow> handler \<Rightarrow> handler \<times> event list" where
  "run_cmds [] h = (h, [])"
| "run_cmds (c # cs) h =
     (let (h1, e1) = exec_cmd c h;
          (h2, e2) = run_cmds cs h1
      in (h2, e1 @ e2))"

section \<open>The continuation adapter (decorators.py)\<close>

text \<open>
  How a wrapped call ends: \<open>Completed\<close> when \<^verbatim>\<open>_done\<close> has run (at once, or later
  after a suspension); \<open>Raised e\<close> when \<open>e\<close> propagates to the caller of
  \<^verbatim>\<open>wrapper\<close>, which is the case as long as the generator has not really been
  suspended; \<open>Raised_late e\<close> when \<open>e\<close> leaves the generator after a suspension: the
  caller has long been returned to, and the exception goes to the exception handlers of
  the stack contexts that were active at the call, innermost first; \<open>Suspended\<close> when
  the generator waits at a yield point that never becomes ready.
\<close>

datatype outcome = Completed | Raised exn | Raised_late exn | Suspended

fun late :: "outcome \<Rightarrow> outcome" where
  "late (Raised e) = Raised_late e"
| "late out = out"

type_synonym callback = "handler \<Rightarrow> handler \<times> event list"

text \<open>
  \<^verbatim>\<open>tornado.gen.Runner(gen, final_callback).run()\<close>, the library's driver: it resumes the
  generator until it is exhausted, then calls \<open>final_callback\<close>; an exception that leaves
  the generator is raised again, without the call; at a yield point that is not ready it
  returns, and it is run again when the result arrives. What happens after such a
  suspension happens later, in the same order; only an exception is then no longer the
  caller's.
\<close>

fun Runner_run :: "gen \<Rightarrow> callback \<Rightarrow> handler \<Rightarrow> outcome \<times> handler \<times> event list" where
  "Runner_run Stop_iteration final_callback h =
     (let (h1, e1) = final_callback h in (Completed, h1, e1))"
| "Runner_run (Gen_raise e) final_callback h = (Raised e, h, [])"
| "Runner_run (Gen_do c g) final_callback h =
     (let (h1, e1) = exec_cmd c h;
          (out, h2, e2) = Runner_run g final_callback h1
      in (out, h2, e1 @ e2))"
| "Runner_run (Gen_yield g) final_callback h = Runner_run g final_callback h"
| "Runner_run (Gen_suspend g) final_callback h =
     (let (out, h1, e1) = Runner_run g final_callback h in (late out, h1, e1))"
| "Runner_run Gen_pending final_callback h = (Suspended, h, [])"

text \<open>
  \<^verbatim>\<open>_done\<close>, decorators.py lines 74--77: calls the callback if one was supplied
  (\<^verbatim>\<open>kwargs.pop(callback_arg_name, None)\<close>, line 72).
\<close>

definition wrapper_done :: "callback option \<Rightarrow> callback" where
  "wrapper_done callback h = (case callback of None \<Rightarrow> (h, []) | Some cb \<Rightarrow> cb h)"

text \<open>
  \<^verbatim>\<open>callback_engine(func)\<close>'s \<^verbatim>\<open>wrapper\<close>, lines 59--92. \<open>name\<close> only labels the
  entry into \<open>func\<close> in the event list.
\<close>

definition wrapper ::
  "label \<Rightarrow> func \<Rightarrow> args \<Rightarrow> kwargs \<Rightarrow> callback option \<Rightarrow> handler
     \<Rightarrow> outcome \<times> handler \<times> event list" where
  "wrapper name func a kw callback h =
     (let (h1, e1) = run_cmds (body func) h;
          e0 = [Ev_call name a kw]
      in case result func of
           Raise e \<Rightarrow> (Raised e, h1, e0 @ e1)
         | Return_generator g \<Rightarrow>
             (let (out, h2, e2) = Runner_run g (wrapper_done callback) h1
              in (out, h2, e0 @ e1 @ e2))
         | Return_value \<Rightarrow> (Raised AssertionError, h1, e0 @ e1)
         | Return_None \<Rightarrow>
             (let (h2, e2) = wrapper_done callback h1
              in (Completed, h2, e0 @ e1 @ e2)))"

text \<open>
  \<^verbatim>\<open>yield Task(f, *args, **kwargs)\<close>: the runner of the yielding generator calls \<open>f\<close>
  with its result callback as \<^verbatim>\<open>callback\<close> and resumes the generator once that callback
  has been called. An exception that propagates out of the call (\<open>Raised e\<close>) is thrown
  into the generator at the yield. One that leaves \<open>f\<close> after a suspension
  (\<open>Raised_late e\<close>) is not: it goes to the stack contexts, where the handler that
  \<^verbatim>\<open>_execute\<close> installs in line 101 takes it, and the yielding generator is never
  resumed.
\<close>

definition result_callback :: callback where
  "result_callback h = (h, [Ev_result_callback])"

definition Task ::
  "label \<Rightarrow> func \<Rightarrow> args \<Rightarrow> kwargs \<Rightarrow> handler \<Rightarrow> outcome \<times> handler \<times> event list" where
  "Task name func a kw h = wrapper name func a kw (Some result_callback) h"

text \<open>A callback that only reports that it was called, and how often it was.\<close>

definition notify :: "string \<Rightarrow> callback" where
  "notify c h = (h, [Ev_callback c])"

definition callback_count :: "string \<Rightarrow> event list \<Rightarrow> nat" where
  "callback_count c evs = length (filter (\<lambda>e. e = Ev_callback c) evs)"

text \<open>Whether driving a generator reaches its end.\<close>

fun gen_outcome :: "gen \<Rightarrow> outcome" where
  "gen_outcome Stop_iteration = Completed"
| "gen_outcome (Gen_raise e) = Raised e"
| "gen_outcome (Gen_do c g) = gen_outcome g"
| "gen_outcome (Gen_yield g) = gen_outcome g"
| "gen_outcome (Gen_suspend g) = late (gen_outcome g)"
| "gen_outcome Gen_pending = Suspended"

definition func_outcome :: "func \<Rightarrow> outcome" where
  "func_outcome f =
     (case result f of
        Return_None \<Rightarrow> Completed
      | Return_value \<Rightarrow> Raised AssertionError
      | Raise e \<Rightarrow> Raised e
      | Return_generator g \<Rightarrow> gen_outcome g)"

section \<open>Assembling the middleware list (middleware\_request.py, lines 22--29)\<close>

text \<open>
  A base class is seen through \<^verbatim>\<open>getattr(base, 'middleware', [])\<close> and the class body
  through \<^verbatim>\<open>dct.get('middleware', [])\<close>: \<open>None\<close> when the attribute is absent.
\<close>

definition get_default :: "'m list option \<Rightarrow> 'm list" where
  "get_default attr = (case attr of None \<Rightarrow> [] | Some m \<Rightarrow> m)"

fun assemble :: "'m list option list \<Rightarrow> 'm list \<Rightarrow> 'm list" where
  "assemble [] middleware = middleware"
| "assemble (base # bases) middleware = assemble bases (get_default base @ middleware)"

definition MiddlewareRequestMeta_new :: "'m list option list \<Rightarrow> 'm list option \<Rightarrow> 'm list" where
  "MiddlewareRequestMeta_new bases dct_middleware = assemble bases (get_default dct_middleware)"

text \<open>
  A single-inheritance chain: each class is created with the previous one as its only
  base and its own class body.
\<close>

fun subclass_chain :: "'m list \<Rightarrow> 'm list option list \<Rightarrow> 'm list" where
  "subclass_chain base_middleware [] = base_middleware"
| "subclass_chain base_middleware (dct_middleware # rest) =
     subclass_chain (MiddlewareRequestMeta_new [Some base_middleware] dct_middleware) rest"

text \<open>
  The claim's words for several bases: the bases' lists concatenated in the order the
  bases are given, then the subtype's own additions.
\<close>

definition ancestor_order_list :: "'m list option list \<Rightarrow> 'm list option \<Rightarrow> 'm list" where
  "ancestor_order_list bases dct_middleware =
     concat (map get_default bases) @ get_default dct_middleware"

section \<open>The pipeline executor (middleware\_request.py, lines 94--162)\<close>

record middleware_class =
  mw_name :: string
  mw_init :: "exn option"
  mw_before :: func
  mw_after :: func
  mw_after_finish :: func

text \<open>
  What \<^verbatim>\<open>_execute\<close> reads but does not own: the request's method, the class's
  \<^verbatim>\<open>SUPPORTED_METHODS\<close> and \<^verbatim>\<open>middleware\<close>, the \<^verbatim>\<open>xsrf_cookies\<close> setting, how
  \<^verbatim>\<open>check_xsrf_cookie\<close> ends (\<open>Some e\<close> when it raises), the \<^verbatim>\<open>prepare\<close> hook,
  \<^verbatim>\<open>decode_argument\<close>, and the handler's methods by name (\<^verbatim>\<open>getattr(self, name)\<close>).
  \<open>getattr_self\<close> gives the function as the class body defines it; the metaclass wraps
  it in \<^verbatim>\<open>callback_engine\<close> (lines 31--33) under the names \<^verbatim>\<open>get\<close>, \<^verbatim>\<open>post\<close>,
  \<^verbatim>\<open>head\<close>, \<^verbatim>\<open>put\<close> and \<^verbatim>\<open>delete\<close>. The model covers the handlers that answer
  these five methods with methods of their own class body. A method the class body does
  not define is the base class's, which raises \<^verbatim>\<open>HTTPError(405)\<close> at once, wrapped or
  not: it is \<open>Func [] (Raise (HTTPError 405))\<close>. A method of the class body under
  another name (\<^verbatim>\<open>patch\<close>, \<^verbatim>\<open>options\<close>) is called unwrapped by the code, with a
  \<^verbatim>\<open>callback\<close> keyword it does not expect, and is outside the model. The entries of
  \<^verbatim>\<open>middleware\<close> are subclasses of \<^verbatim>\<open>Middleware\<close>, whose three stage methods are always
  wrapped (lines 171--173 and 190--207).
\<close>

record request_env =
  request_method :: string
  SUPPORTED_METHODS :: "string list"
  xsrf_cookies :: bool
  check_xsrf_cookie :: "exn option"
  prepare :: func
  decode_argument :: "string \<Rightarrow> string option \<Rightarrow> exn + string"
  middleware :: "middleware_class list"
  getattr_self :: "string \<Rightarrow> func option"

text \<open>\<^verbatim>\<open>str.lower()\<close> on ASCII.\<close>

definition lower_char :: "char \<Rightarrow> char" where
  "lower_char c =
     (let n = (of_char c :: nat) in if 65 \<le> n \<and> n \<le> 90 then char_of (n + 32) else c)"

definition lower :: "string \<Rightarrow> string" where
  "lower s = map lower_char s"

text \<open>
  Lines 110--119, run on the first call only: the method check, the XSRF check, then
  \<^verbatim>\<open>self.prepare()\<close>, a plain call whose return value is dropped.
\<close>

definition first_call_checks ::
  "request_env \<Rightarrow> handler \<Rightarrow> exn option \<times> handler \<times> event list" where
  "first_call_checks env h =
     (if request_method env \<notin> set (SUPPORTED_METHODS env) then (Some (HTTPError 405), h, [])
      else
        (let check = request_method env \<notin> {''GET'', ''HEAD'', ''OPTIONS''} \<and> xsrf_cookies env;
             e1 = (if check then [Ev_check_xsrf_cookie] else [])
         in if check \<and> check_xsrf_cookie env \<noteq> None
            then (check_xsrf_cookie env, h, e1)
            else
              (let (h2, e2) = run_cmds (body (prepare env)) h
               in (case result (prepare env) of
                     Raise e \<Rightarrow> (Some e, h2, e1 @ [Ev_prepare] @ e2)
                   | _ \<Rightarrow> (None, h2, e1 @ [Ev_prepare] @ e2)))))"

text \<open>The list comprehension of line 124: it stops at the first argument that fails to decode.\<close>

fun decode_args ::
  "(string \<Rightarrow> string option \<Rightarrow> exn + string) \<Rightarrow> args \<Rightarrow> (exn + args) \<times> event list" where
  "decode_args dec [] = (Inr [], [])"
| "decode_args dec (arg # rest) =
     (case dec arg None of
        Inl e \<Rightarrow> (Inl e, [Ev_decode_argument arg None])
      | Inr v \<Rightarrow>
          (case decode_args dec rest of
             (Inl e, evs) \<Rightarrow> (Inl e, Ev_decode_argument arg None # evs)
           | (Inr vs, evs) \<Rightarrow> (Inr (v # vs), Ev_decode_argument arg None # evs)))"

text \<open>The generator expression of lines 126--127.\<close>

fun decode_kwargs ::
  "(string \<Rightarrow> string option \<Rightarrow> exn + string) \<Rightarrow> kwargs \<Rightarrow> (exn + kwargs) \<times> event list" where
  "decode_kwargs dec [] = (Inr [], [])"
| "decode_kwargs dec ((k, v) # rest) =
     (case dec v (Some k) of
        Inl e \<Rightarrow> (Inl e, [Ev_decode_argument v (Some k)])
      | Inr d \<Rightarrow>
          (case decode_kwargs dec rest of
             (Inl e, evs) \<Rightarrow> (Inl e, Ev_decode_argument v (Some k) # evs)
           | (Inr ds, evs) \<Rightarrow> (Inr ((k, d) # ds), Ev_decode_argument v (Some k) # evs)))"

text \<open>
  Lines 121--128. \<^verbatim>\<open>self._cached_args\<close> is \<^verbatim>\<open>None\<close> or a pair, and a pair is true.
\<close>

definition get_args ::
  "request_env \<Rightarrow> args \<Rightarrow> kwargs \<Rightarrow> handler \<Rightarrow> (exn + args \<times> kwargs) \<times> handler \<times> event list" where
  "get_args env raw_args raw_kwargs h =
     (case cached_args h of
        Some (a, kw) \<Rightarrow> (Inr (a, kw), h, [])
      | None \<Rightarrow>
          (case decode_args (decode_argument env) raw_args of
             (Inl e, e1) \<Rightarrow> (Inl e, h, e1)
           | (Inr a, e1) \<Rightarrow>
               (case decode_kwargs (decode_argument env) raw_kwargs of
                  (Inl e, e2) \<Rightarrow> (Inl e, h, e1 @ e2)
                | (Inr kw, e2) \<Rightarrow> (Inr (a, kw), h\<lparr>cached_args := Some (a, kw)\<rparr>, e1 @ e2))))"

text \<open>
  The loop of lines 132--135. \<open>executed\<close> is \<^verbatim>\<open>executed_middleware\<close>; an instance is
  put at its front as soon as it is constructed, before its \<^verbatim>\<open>before\<close> is called.
\<close>

fun before_loop ::
  "middleware_class list \<Rightarrow> args \<Rightarrow> kwargs \<Rightarrow> middleware_class list \<Rightarrow> handler
     \<Rightarrow> outcome \<times> middleware_class list \<times> handler \<times> event list" where
  "before_loop [] a kw executed h = (Completed, executed, h, [])"
| "before_loop (middle_class # rest) a kw executed h =
     (case mw_init middle_class of
        Some e \<Rightarrow> (Raised e, executed, h, [])
      | None \<Rightarrow>
          (let executed1 = middle_class # executed;
               (out, h1, e1) = Task (Stage Before (mw_name middle_class)) (mw_before middle_class) a kw h
           in case out of
                Completed \<Rightarrow>
                  (let (out2, executed2, h2, e2) = before_loop rest a kw executed1 h1
                   in (out2, executed2, h2, Ev_construct (mw_name middle_class) # e1 @ e2))
              | _ \<Rightarrow> (out, executed1, h1, Ev_construct (mw_name middle_class) # e1)))"

text \<open>
  \<^verbatim>\<open>except InterruptRequest: pass\<close>, lines 146--147. Only an exception thrown into the
  generator at the yield reaches the clause.
\<close>

fun except_InterruptRequest :: "outcome \<Rightarrow> outcome" where
  "except_InterruptRequest (Raised InterruptRequest) = Completed"
| "except_InterruptRequest out = out"

text \<open>The \<^verbatim>\<open>try\<close> statement of lines 130--147.\<close>

definition try_block ::
  "request_env \<Rightarrow> bool \<Rightarrow> args \<Rightarrow> kwargs \<Rightarrow> handler
     \<Rightarrow> outcome \<times> middleware_class list \<times> handler \<times> event list" where
  "try_block env run_middleware a kw h =
     (let (out1, executed, h1, e1) =
            (if run_middleware then before_loop (middleware env) a kw [] h
             else (Completed, [], h, []))
      in case out1 of
           Completed \<Rightarrow>
             (case getattr_self env (lower (request_method env)) of
                None \<Rightarrow> (Raised AttributeError, executed, h1, e1)
              | Some f \<Rightarrow>
                  (let (out2, h2, e2) = Task (Action (lower (request_method env))) f a kw h1
                   in (except_InterruptRequest out2, executed, h2, e1 @ e2)))
         | _ \<Rightarrow> (except_InterruptRequest out1, executed, h1, e1))"

text \<open>The loops of lines 150--151 and 161--162.\<close>

fun stage_func :: "stage \<Rightarrow> middleware_class \<Rightarrow> func" where
  "stage_func Before m = mw_before m"
| "stage_func After m = mw_after m"
| "stage_func After_finish m = mw_after_finish m"

fun stage_loop ::
  "stage \<Rightarrow> middleware_class list \<Rightarrow> args \<Rightarrow> kwargs \<Rightarrow> handler
     \<Rightarrow> outcome \<times> handler \<times> event list" where
  "stage_loop st [] a kw h = (Completed, h, [])"
| "stage_loop st (middle # rest) a kw h =
     (let (out, h1, e1) = Task (Stage st (mw_name middle)) (stage_func st middle) a kw h
      in case out of
           Completed \<Rightarrow>
             (let (out2, h2, e2) = stage_loop st rest a kw h1 in (out2, h2, e1 @ e2))
         | _ \<Rightarrow> (out, h1, e1))"

text \<open>Lines 150--162, the body of the second \<^verbatim>\<open>if run_middleware\<close>.\<close>

definition after_phase ::
  "middleware_class list \<Rightarrow> args \<Rightarrow> kwargs \<Rightarrow> handler \<Rightarrow> outcome \<times> handler \<times> event list" where
  "after_phase executed a kw h =
     (let (out1, h1, e1) = stage_loop After executed a kw h
      in case out1 of
           Completed \<Rightarrow>
             (case try_redirect h1 of
                (Some e, h2, e2) \<Rightarrow> (Raised e, h2, e1 @ e2)
              | (None, h2, e2) \<Rightarrow>
                  (case (if \<not> finished h2 then do_finish h2 else (None, h2, [])) of
                     (Some e, h3, e3) \<Rightarrow> (Raised e, h3, e1 @ e2 @ e3)
                   | (None, h3, e3) \<Rightarrow>
                       (let (out4, h4, e4) = stage_loop After_finish executed a kw h3
                        in (out4, h4, e1 @ e2 @ e3 @ e4))))
         | _ \<Rightarrow> (out1, h1, e1))"

text \<open>
  \<^verbatim>\<open>_execute\<close>, lines 95--162: the body of the \<^verbatim>\<open>with\<close> statement. \<open>raw_args\<close> and
  \<open>raw_kwargs\<close> are the arguments the body receives: the adapter that wraps
  \<^verbatim>\<open>_execute\<close> itself (line 94) has already taken a keyword named \<^verbatim>\<open>callback\<close> out of
  them. \<open>Raised e\<close> is an exception that leaves the body, \<open>Raised_late e\<close> one that a
  stage or the action raised after a suspension; either is handed to the base class's
  \<^verbatim>\<open>_stack_context_handle_exception\<close>, and nothing more of the dispatch runs.
\<close>

definition execute ::
  "request_env \<Rightarrow> string list \<Rightarrow> args \<Rightarrow> kwargs \<Rightarrow> handler \<Rightarrow> outcome \<times> handler \<times> event list" where
  "execute env transforms_arg raw_args raw_kwargs h0 =
     (let run_middleware = \<not> called_once h0;
          h = h0\<lparr>transforms := transforms_arg, called_once := True\<rparr>;
          (err, h1, e1) = (if run_middleware then first_call_checks env h else (None, h, []))
      in case err of
           Some e \<Rightarrow> (Raised e, h1, e1)
         | None \<Rightarrow>
             (case get_args env raw_args raw_kwargs h1 of
                (Inl e, h2, e2) \<Rightarrow> (Raised e, h2, e1 @ e2)
              | (Inr (a, kw), h2, e2) \<Rightarrow>
                  (let (out3, executed, h3, e3) = try_block env run_middleware a kw h2
                   in case out3 of
                        Completed \<Rightarrow>
                          (if run_middleware
                           then (let (out4, h4, e4) = after_phase executed a kw h3
                                 in (out4, h4, e1 @ e2 @ e3 @ e4))
                           else (Completed, h3, e1 @ e2 @ e3))
                      | _ \<Rightarrow> (out3, h3, e1 @ e2 @ e3))))"

section \<open>Reading an event list\<close>

text \<open>The middleware whose stage \<open>st\<close> was entered, in order.\<close>

fun stage_names :: "stage \<Rightarrow> event list \<Rightarrow> string list" where
  "stage_names st [] = []"
| "stage_names st (Ev_call (Stage st' n) a kw # evs) =
     (if st' = st then n # stage_names st evs else stage_names st evs)"
| "stage_names st (e # evs) = stage_names st evs"

text \<open>The middleware constructed, in order.\<close>

fun constructed :: "event list \<Rightarrow> string list" where
  "constructed [] = []"
| "constructed (Ev_construct n # evs) = n # constructed evs"
| "constructed (e # evs) = constructed evs"

text \<open>The arguments of each entry into an action method, in order.\<close>

fun action_calls :: "event list \<Rightarrow> (string \<times> args \<times> kwargs) list" where
  "action_calls [] = []"
| "action_calls (Ev_call (Action n) a kw # evs) = (n, a, kw) # action_calls evs"
| "action_calls (e # evs) = action_calls evs"

text \<open>The directives handed to the base class's \<^verbatim>\<open>redirect\<close>, in order.\<close>

fun super_redirects :: "event list \<Rightarrow> (args \<times> kwargs) list" where
  "super_redirects [] = []"
| "super_redirects (Ev_super_redirect a kw # evs) = (a, kw) # super_redirects evs"
| "super_redirects (e # evs) = super_redirects evs"

text \<open>The directives recorded by the overridden \<^verbatim>\<open>redirect\<close>, in order.\<close>

fun redirect_requests :: "event list \<Rightarrow> (args \<times> kwargs) list" where
  "redirect_requests [] = []"
| "redirect_requests (Ev_redirect a kw # evs) = (a, kw) # redirect_requests evs"
| "redirect_requests (e # evs) = redirect_requests evs"

section \<open>Auxiliary functions for the proofs\<close>

text \<open>
  The handler operations a generator performs when it is driven, and those a callable
  performs in all.
\<close>

fun gen_cmds :: "gen \<Rightarrow> cmd list" where
  "gen_cmds Stop_iteration = []"
| "gen_cmds (Gen_raise e) = []"
| "gen_cmds (Gen_do c g) = c # gen_cmds g"
| "gen_cmds (Gen_yield g) = gen_cmds g"
| "gen_cmds (Gen_suspend g) = gen_cmds g"
| "gen_cmds Gen_pending = []"

definition func_cmds :: "func \<Rightarrow> cmd list" where
  "func_cmds f = body f @ (case result f of Return_generator g \<Rightarrow> gen_cmds g | _ \<Rightarrow> [])"

text \<open>
  The middleware whose stage \<open>st\<close> a stage loop over \<open>ms\<close> enters: it stops after the
  first one whose stage does not complete.
\<close>

fun ran :: "stage \<Rightarrow> middleware_class list \<Rightarrow> middleware_class list" where
  "ran st [] = []"
| "ran st (m # ms) = m # (if func_outcome (stage_func st m) = Completed then ran st ms else [])"

text \<open>
  The middleware the BEFORE loop constructs and enters: it stops before the first one whose
  constructor raises and after the first one whose \<^verbatim>\<open>before\<close> does not complete.
\<close>

fun entered :: "middleware_class list \<Rightarrow> middleware_class list" where
  "entered [] = []"
| "entered (m # ms) =
     (case mw_init m of
        Some e \<Rightarrow> []
      | None \<Rightarrow> m # (if func_outcome (mw_before m) = Completed then entered ms else []))"

text \<open>The events of validation, preparation and argument decoding.\<close>

fun is_preamble :: "event \<Rightarrow> bool" where
  "is_preamble Ev_check_xsrf_cookie = True"
| "is_preamble Ev_prepare = True"
| "is_preamble (Ev_decode_argument r n) = True"
| "is_preamble e = False"

definition preamble_events :: "event list \<Rightarrow> event list" where
  "preamble_events evs = filter is_preamble evs"

text \<open>
  The pending directive after the calls \<open>requests\<close> of \<^verbatim>\<open>redirect\<close>, when \<open>r\<close> was
  pending before them: the last call wins.
\<close>

definition pending_after :: "(args \<times> kwargs) list \<Rightarrow> (args \<times> kwargs) option \<Rightarrow> (args \<times> kwargs) option" where
  "pending_after requests r = (if requests = [] then r else Some (last requests))"

text \<open>What \<^verbatim>\<open>try_redirect\<close> sends for a pending directive.\<close>

definition sent_redirect :: "(args \<times> kwargs) option \<Rightarrow> event list" where
  "sent_redirect r = (case r of None \<Rightarrow> [] | Some (a, kw) \<Rightarrow> [Ev_super_redirect a kw])"

section \<open>Example requests\<close>

text \<open>
  The default stage methods of \<^verbatim>\<open>Middleware\<close> (lines 190--207) do nothing and return
  \<^verbatim>\<open>None\<close>; \<open>Middleware n\<close> is a subclass that overrides none of them.
\<close>

definition noop :: func where
  "noop = Func [] Return_None"

definition Middleware :: "string \<Rightarrow> middleware_class" where
  "Middleware n =
     \<lparr>mw_name = n, mw_init = None, mw_before = noop, mw_after = noop, mw_after_finish = noop\<rparr>"

definition tornado_methods :: "string list" where
  "tornado_methods = [''GET'', ''HEAD'', ''POST'', ''DELETE'', ''PATCH'', ''PUT'', ''OPTIONS'']"

text \<open>A request whose method the handler does not support.\<close>

definition trace_request :: request_env where
  "trace_request =
     \<lparr>request_method = ''TRACE'', SUPPORTED_METHODS = tornado_methods, xsrf_cookies = False,
      check_xsrf_cookie = None, prepare = noop, decode_argument = (\<lambda>raw n. Inr raw),
      middleware = [Middleware ''m1''],
      getattr_self = (\<lambda>n. if n = ''get'' then Some noop else None)\<rparr>"

text \<open>Three middleware, the second of which raises the interrupt signal in \<^verbatim>\<open>before\<close>.\<close>

definition interrupting :: "string \<Rightarrow> middleware_class" where
  "interrupting n = (Middleware n)\<lparr>mw_before := Func [] (Raise InterruptRequest)\<rparr>"

definition interrupted_request :: request_env where
  "interrupted_request =
     \<lparr>request_method = ''GET'', SUPPORTED_METHODS = tornado_methods, xsrf_cookies = False,
      check_xsrf_cookie = None, prepare = noop, decode_argument = (\<lambda>raw n. Inr raw),
      middleware = [Middleware ''m1'', interrupting ''m2'', Middleware ''m3''],
      getattr_self = (\<lambda>n. if n = ''get'' then Some noop else None)\<rparr>"

text \<open>
  The same, but the \<^verbatim>\<open>after\<close> stage of the second middleware raises an ordinary
  exception.
\<close>

definition failing_after_request :: request_env where
  "failing_after_request =
     interrupted_request
       \<lparr>middleware :=
          [Middleware ''m1'',
           (interrupting ''m2'')\<lparr>mw_after := Func [] (Raise (Exception ''boom''))\<rparr>,
           Middleware ''m3'']\<rparr>"

text \<open>
  The first request again, but the second middleware finalizes the response and asks for
  a redirect before it raises the interrupt signal.
\<close>

definition interrupted_redirecting_request :: request_env where
  "interrupted_redirecting_request =
     interrupted_request
       \<lparr>middleware :=
          [Middleware ''m1'',
           (Middleware ''m2'')
             \<lparr>mw_before := Func [Call_do_finish, Call_redirect [''/login''] []] (Raise InterruptRequest)\<rparr>,
           Middleware ''m3'']\<rparr>"

text \<open>
  The first request again, but the \<^verbatim>\<open>before\<close> stage of the second middleware is a
  generator that raises the interrupt signal only after a suspension.
\<close>

definition late_interrupt_request :: request_env where
  "late_interrupt_request =
     interrupted_request
       \<lparr>middleware :=
          [Middleware ''m1'',
           (Middleware ''m2'')
             \<lparr>mw_before := Func [] (Return_generator (Gen_suspend (Gen_raise InterruptRequest)))\<rparr>,
           Middleware ''m3'']\<rparr>"

text \<open>One middleware, and an action that raises an ordinary exception.\<close>

definition failing_request :: request_env where
  "failing_request =
     \<lparr>request_method = ''GET'', SUPPORTED_METHODS = tornado_methods, xsrf_cookies = False,
      check_xsrf_cookie = None, prepare = noop, decode_argument = (\<lambda>raw n. Inr raw),
      middleware = [Middleware ''m1''],
      getattr_self = (\<lambda>n. if n = ''get'' then Some (Func [] (Raise (Exception ''boom''))) else None)\<rparr>"

text \<open>One middleware, and an action that calls \<^verbatim>\<open>redirect\<close> twice, once before and once
  after a suspension.\<close>

definition redirecting_request :: request_env where
  "redirecting_request =
     \<lparr>request_method = ''GET'', SUPPORTED_METHODS = tornado_methods, xsrf_cookies = False,
      check_xsrf_cookie = None, prepare = noop, decode_argument = (\<lambda>raw n. Inr raw),
      middleware = [Middleware ''m1''],
      getattr_self = (\<lambda>n. if n = ''get''
         then Some (Func [Call_redirect [''/first''] []]
                (Return_generator (Gen_yield (Gen_do (Call_redirect [''/second''] []) Stop_iteration))))
         else None)\<rparr>"

text \<open>One middleware, an action that does nothing, and a decoder that changes its input.\<close>

definition decoding_request :: request_env where
  "decoding_request =
     \<lparr>request_method = ''GET'', SUPPORTED_METHODS = tornado_methods, xsrf_cookies = False,
      check_xsrf_cookie = None, prepare = noop, decode_argument = (\<lambda>raw n. Inr (raw @ ''!'')),
      middleware = [Middleware ''m1''],
      getattr_self = (\<lambda>n. if n = ''get'' then Some noop else None)\<rparr>"

text \<open>Two middleware, and an action that finalizes the response itself.\<close>

definition finishing_request :: request_env where
  "finishing_request =
     \<lparr>request_method = ''GET'', SUPPORTED_METHODS = tornado_methods, xsrf_cookies = False,
      check_xsrf_cookie = None, prepare = noop, decode_argument = (\<lambda>raw n. Inr raw),
      middleware = [Middleware ''m1'', Middleware ''m2''],
      getattr_self = (\<lambda>n. if n = ''get'' then Some (Func [Call_do_finish] Return_None) else None)\<rparr>"

text \<open>The same, but the action also asks for a redirect.\<close>

definition finishing_redirecting_request :: request_env where
  "finishing_redirecting_request =
     finishing_request
       \<lparr>getattr_self :=
          (\<lambda>n. if n = ''get''
             then Some (Func [Call_do_finish, Call_redirect [''/next''] []] Return_None)
             else None)\<rparr>"

text \<open>
  The same as the first, but the \<^verbatim>\<open>after_finish\<close> stage of the second middleware raises.
\<close>

definition failing_after_finish_request :: request_env where
  "failing_after_finish_request =
     finishing_request
       \<lparr>middleware :=
          [Middleware ''m1'',
           (Middleware ''m2'')\<lparr>mw_after_finish := Func [] (Raise (Exception ''boom''))\<rparr>]\<rparr>"

section \<open>The adapter in closed form\<close>

lemma run_cmds_append:
  "run_cmds (cs @ ds) h =
     (fst (run_cmds ds (fst (run_cmds cs h))), snd (run_cmds cs h) @ snd (run_cmds ds (fst (run_cmds cs h))))"
  by (induction cs arbitrary: h) (simp_all add: split_beta)

lemma late_Completed [simp]: "(late out = Completed) = (out = Completed)"
  by (cases out) simp_all

lemma Runner_run_eq:
  "Runner_run g fc h =
     (if gen_outcome g = Completed
      then (Completed, fst (fc (fst (run_cmds (gen_cmds g) h))),
            snd (run_cmds (gen_cmds g) h) @ snd (fc (fst (run_cmds (gen_cmds g) h))))
      else (gen_outcome g, fst (run_cmds (gen_cmds g) h), snd (run_cmds (gen_cmds g) h)))"
  by (induction g arbitrary: h) (simp_all add: split_beta)

lemma wrapper_eq:
  "wrapper name f a kw cb h =
     (if func_outcome f = Completed
      then (Completed, fst (wrapper_done cb (fst (run_cmds (func_cmds f) h))),
            Ev_call name a kw # snd (run_cmds (func_cmds f) h)
              @ snd (wrapper_done cb (fst (run_cmds (func_cmds f) h))))
      else (func_outcome f, fst (run_cmds (func_cmds f) h),
            Ev_call name a kw # snd (run_cmds (func_cmds f) h)))"
  by (cases f; cases "result f")
     (simp_all add: wrapper_def func_outcome_def func_cmds_def split_beta Runner_run_eq run_cmds_append)

lemma Task_eq:
  "Task name f a kw h =
     (func_outcome f, fst (run_cmds (func_cmds f) h),
      Ev_call name a kw # snd (run_cmds (func_cmds f) h)
        @ (if func_outcome f = Completed then [Ev_result_callback] else []))"
  by (simp add: Task_def wrapper_eq wrapper_done_def result_callback_def)

subsection \<open>projections\<close>

lemma stage_names_append [simp]: "stage_names st (xs @ ys) = stage_names st xs @ stage_names st ys"
  by (induction st xs rule: stage_names.induct) simp_all

lemma constructed_append [simp]: "constructed (xs @ ys) = constructed xs @ constructed ys"
  by (induction xs rule: constructed.induct) simp_all

lemma action_calls_append [simp]: "action_calls (xs @ ys) = action_calls xs @ action_calls ys"
  by (induction xs rule: action_calls.induct) simp_all

lemma super_redirects_append [simp]: "super_redirects (xs @ ys) = super_redirects xs @ super_redirects ys"
  by (induction xs rule: super_redirects.induct) simp_all

lemma redirect_requests_append [simp]: "redirect_requests (xs @ ys) = redirect_requests xs @ redirect_requests ys"
  by (induction xs rule: redirect_requests.induct) simp_all

lemma pending_after_Nil [simp]: "pending_after [] r = r"
  by (simp add: pending_after_def)

lemma pending_after_append [simp]:
  "pending_after (xs @ ys) r = pending_after ys (pending_after xs r)"
  by (simp add: pending_after_def)

subsection \<open>run_cmds\<close>

lemma exec_cmd_fields [simp]:
  "called_once (fst (exec_cmd c h)) = called_once h"
  "cached_args (fst (exec_cmd c h)) = cached_args h"
  "transforms (fst (exec_cmd c h)) = transforms h"
  by (cases c; simp add: redirect_def finish_def do_finish_def split_beta)+

lemma exec_cmd_events [simp]:
  "stage_names st (snd (exec_cmd c h)) = []"
  "constructed (snd (exec_cmd c h)) = []"
  "action_calls (snd (exec_cmd c h)) = []"
  "super_redirects (snd (exec_cmd c h)) = []"
  by (cases c; simp add: redirect_def finish_def do_finish_def split_beta)+

lemma exec_cmd_finished: "finished h \<Longrightarrow> finished (fst (exec_cmd c h))"
  by (cases c) (simp_all add: redirect_def finish_def do_finish_def split_beta)

lemma exec_cmd_redirection:
  "redirection (fst (exec_cmd c h)) = pending_after (redirect_requests (snd (exec_cmd c h))) (redirection h)"
  by (cases c) (simp_all add: redirect_def finish_def do_finish_def split_beta pending_after_def)

lemma run_cmds_fields [simp]:
  "called_once (fst (run_cmds cs h)) = called_once h"
  "cached_args (fst (run_cmds cs h)) = cached_args h"
  "transforms (fst (run_cmds cs h)) = transforms h"
  by (induction cs arbitrary: h; simp add: split_beta)+

lemma run_cmds_events [simp]:
  "stage_names st (snd (run_cmds cs h)) = []"
  "constructed (snd (run_cmds cs h)) = []"
  "action_calls (snd (run_cmds cs h)) = []"
  "super_redirects (snd (run_cmds cs h)) = []"
  by (induction cs arbitrary: h; simp add: split_beta)+

lemma run_cmds_finished: "finished h \<Longrightarrow> finished (fst (run_cmds cs h))"
  by (induction cs arbitrary: h) (simp_all add: split_beta exec_cmd_finished)

lemma run_cmds_redirection:
  "redirection (fst (run_cmds cs h)) = pending_after (redirect_requests (snd (run_cmds cs h))) (redirection h)"
  by (induction cs arbitrary: h) (simp_all add: split_beta exec_cmd_redirection)


lemma preamble_events_simps [simp]:
  "preamble_events [] = []"
  "preamble_events (e # evs) = (if is_preamble e then e # preamble_events evs else preamble_events evs)"
  "preamble_events (xs @ ys) = preamble_events xs @ preamble_events ys"
  by (simp_all add: preamble_events_def)

lemma exec_cmd_preamble [simp]: "preamble_events (snd (exec_cmd c h)) = []"
  by (cases c) (simp_all add: redirect_def finish_def do_finish_def split_beta)

lemma run_cmds_preamble [simp]: "preamble_events (snd (run_cmds cs h)) = []"
  by (induction cs arbitrary: h) (simp_all add: split_beta)

lemma exec_cmd_finished_iff: "finished (fst (exec_cmd c h)) = (finished h \<or> c = Call_do_finish)"
  by (cases c) (simp_all add: redirect_def finish_def do_finish_def split_beta)

lemma run_cmds_finished_iff: "finished (fst (run_cmds cs h)) = (finished h \<or> Call_do_finish \<in> set cs)"
  by (induction cs arbitrary: h) (auto simp: split_beta exec_cmd_finished_iff)

lemma exec_cmd_super_finish:
  "Ev_super_finish \<in> set (snd (exec_cmd c h)) = (c = Call_do_finish \<and> \<not> finished h)"
  by (cases c) (simp_all add: redirect_def finish_def do_finish_def split_beta)

lemma run_cmds_super_finish:
  "Ev_super_finish \<in> set (snd (run_cmds cs h)) = (Call_do_finish \<in> set cs \<and> \<not> finished h)"
  by (induction cs arbitrary: h) (auto simp: split_beta exec_cmd_super_finish exec_cmd_finished_iff)

subsection \<open>stage loop\<close>

lemma stage_loop_fields:
  "stage_loop st ms a kw h = (out, h', evs) \<Longrightarrow>
     called_once h' = called_once h \<and> cached_args h' = cached_args h \<and> transforms h' = transforms h
     \<and> (finished h \<longrightarrow> finished h')
     \<and> redirection h' = pending_after (redirect_requests evs) (redirection h)"
proof (induction ms arbitrary: h out h' evs)
  case Nil
  then show ?case by simp
next
  case (Cons m ms)
  show ?case
  proof (cases "func_outcome (stage_func st m) = Completed")
    case True
    obtain out2 h2 e2 where r: "stage_loop st ms a kw (fst (run_cmds (func_cmds (stage_func st m)) h)) = (out2, h2, e2)"
      by (metis prod_cases3)
    from Cons.IH [OF r] Cons.prems True r show ?thesis
      by (auto simp: Task_eq run_cmds_finished run_cmds_redirection)
  next
    case False
    with Cons.prems show ?thesis
      by (auto simp: Task_eq run_cmds_finished run_cmds_redirection split: outcome.splits)
  qed
qed

lemma stage_loop_events:
  "stage_loop st ms a kw h = (out, h', evs) \<Longrightarrow>
     constructed evs = [] \<and> action_calls evs = [] \<and> super_redirects evs = []
     \<and> preamble_events evs = []
     \<and> stage_names st' evs = (if st' = st then map mw_name (ran st ms) else [])
     \<and> (out = Completed \<longrightarrow> ran st ms = ms)"
proof (induction ms arbitrary: h out h' evs)
  case Nil
  then show ?case by auto
next
  case (Cons m ms)
  show ?case
  proof (cases "func_outcome (stage_func st m) = Completed")
    case True
    obtain out2 h2 e2 where r: "stage_loop st ms a kw (fst (run_cmds (func_cmds (stage_func st m)) h)) = (out2, h2, e2)"
      by (metis prod_cases3)
    from Cons.IH [OF r] Cons.prems True r show ?thesis
      by (auto simp: Task_eq)
  next
    case False
    with Cons.prems show ?thesis
      by (auto simp: Task_eq split: outcome.splits)
  qed
qed

lemma ran_prefix: "prefix (ran st ms) ms"
  by (induction ms) simp_all

lemma entered_prefix: "prefix (entered ms) ms"
  by (induction ms) (simp_all split: option.splits)


subsection \<open>before loop\<close>

lemma before_loop_fields:
  "before_loop ms a kw ex h = (out, ex', h', evs) \<Longrightarrow>
     called_once h' = called_once h \<and> cached_args h' = cached_args h \<and> transforms h' = transforms h
     \<and> (finished h \<longrightarrow> finished h')
     \<and> redirection h' = pending_after (redirect_requests evs) (redirection h)"
proof (induction ms arbitrary: ex h out ex' h' evs)
  case Nil
  then show ?case by simp
next
  case (Cons m ms)
  show ?case
  proof (cases "mw_init m = None \<and> func_outcome (mw_before m) = Completed")
    case True
    obtain out2 ex2 h2 e2 where
      r: "before_loop ms a kw (m # ex) (fst (run_cmds (func_cmds (mw_before m)) h)) = (out2, ex2, h2, e2)"
      by (metis prod_cases4)
    from Cons.IH [OF r] Cons.prems True r show ?thesis
      by (auto simp: Task_eq run_cmds_finished run_cmds_redirection)
  next
    case False
    with Cons.prems show ?thesis
      by (auto simp: Task_eq Let_def run_cmds_finished run_cmds_redirection split: outcome.splits option.splits)
  qed
qed

lemma before_loop_events:
  "before_loop ms a kw ex h = (out, ex', h', evs) \<Longrightarrow>
     ex' = rev (entered ms) @ ex
     \<and> constructed evs = map mw_name (entered ms)
     \<and> stage_names st evs = (if st = Before then map mw_name (entered ms) else [])
     \<and> action_calls evs = [] \<and> super_redirects evs = [] \<and> preamble_events evs = []
     \<and> (out = Completed \<longrightarrow> entered ms = ms)"
proof (induction ms arbitrary: ex h out ex' h' evs)
  case Nil
  then show ?case by auto
next
  case (Cons m ms)
  show ?case
  proof (cases "mw_init m = None \<and> func_outcome (mw_before m) = Completed")
    case True
    obtain out2 ex2 h2 e2 where
      r: "before_loop ms a kw (m # ex) (fst (run_cmds (func_cmds (mw_before m)) h)) = (out2, ex2, h2, e2)"
      by (metis prod_cases4)
    from Cons.IH [OF r] Cons.prems True r show ?thesis
      by (auto simp: Task_eq)
  next
    case False
    with Cons.prems show ?thesis
      by (auto simp: Task_eq Let_def split: outcome.splits option.splits)
  qed
qed

subsection \<open>try block\<close>

lemma try_block_fields:
  assumes "try_block env rm a kw h = (out, ex, h', evs)"
  shows "called_once h' = called_once h \<and> cached_args h' = cached_args h \<and> transforms h' = transforms h
     \<and> (finished h \<longrightarrow> finished h')
     \<and> redirection h' = pending_after (redirect_requests evs) (redirection h)"
proof -
  obtain o1 ex1 h1 e1 where
    b: "(if rm then before_loop (middleware env) a kw [] h else (Completed, [], h, [])) = (o1, ex1, h1, e1)"
    by (metis prod_cases4)
  have f1: "called_once h1 = called_once h \<and> cached_args h1 = cached_args h \<and> transforms h1 = transforms h
     \<and> (finished h \<longrightarrow> finished h1)
     \<and> redirection h1 = pending_after (redirect_requests e1) (redirection h)"
    using b before_loop_fields [of "middleware env" a kw "[]" h o1 ex1 h1 e1]
    by (cases rm) auto
  from assms b f1 show ?thesis
    by (auto simp: try_block_def Task_eq run_cmds_finished run_cmds_redirection
        split: outcome.splits option.splits)
qed

lemma try_block_events:
  assumes "try_block env rm a kw h = (out, ex, h', evs)"
  shows "ex = (if rm then rev (entered (middleware env)) else [])
     \<and> constructed evs = map mw_name (rev ex)
     \<and> stage_names st evs = (if st = Before then map mw_name (rev ex) else [])
     \<and> super_redirects evs = [] \<and> preamble_events evs = []
     \<and> (action_calls evs = [] \<or> action_calls evs = [(lower (request_method env), a, kw)])"
proof -
  obtain o1 ex1 h1 e1 where
    b: "(if rm then before_loop (middleware env) a kw [] h else (Completed, [], h, [])) = (o1, ex1, h1, e1)"
    by (metis prod_cases4)
  have f1: "ex1 = (if rm then rev (entered (middleware env)) else [])
     \<and> constructed e1 = map mw_name (rev ex1)
     \<and> stage_names st e1 = (if st = Before then map mw_name (rev ex1) else [])
     \<and> action_calls e1 = [] \<and> super_redirects e1 = [] \<and> preamble_events e1 = []"
    using b before_loop_events [of "middleware env" a kw "[]" h o1 ex1 h1 e1 st]
    by (cases rm) (auto simp: rev_map)
  from assms b f1 show ?thesis
    by (auto simp: try_block_def Task_eq split: outcome.splits option.splits)
qed

subsection \<open>first-call checks and argument decoding\<close>

lemma first_call_checks_fields:
  assumes "first_call_checks env h = (err, h', evs)"
  shows "called_once h' = called_once h \<and> cached_args h' = cached_args h \<and> transforms h' = transforms h
     \<and> (finished h \<longrightarrow> finished h')
     \<and> redirection h' = pending_after (redirect_requests evs) (redirection h)"
  using assms
  by (auto simp: first_call_checks_def Let_def split_beta run_cmds_finished run_cmds_redirection
      split: if_splits func_result.splits)

lemma first_call_checks_events:
  assumes "first_call_checks env h = (err, h', evs)"
  shows "constructed evs = [] \<and> stage_names st evs = [] \<and> action_calls evs = []
     \<and> super_redirects evs = []"
  using assms
  by (auto simp: first_call_checks_def Let_def split_beta split: if_splits func_result.splits)

lemma decode_args_events:
  "decode_args dec raw = (r, evs) \<Longrightarrow>
     constructed evs = [] \<and> stage_names st evs = [] \<and> action_calls evs = []
     \<and> super_redirects evs = [] \<and> redirect_requests evs = []"
  by (induction raw arbitrary: r evs) (auto split: sum.splits prod.splits)

lemma decode_kwargs_events:
  "decode_kwargs dec raw = (r, evs) \<Longrightarrow>
     constructed evs = [] \<and> stage_names st evs = [] \<and> action_calls evs = []
     \<and> super_redirects evs = [] \<and> redirect_requests evs = []"
  by (induction raw arbitrary: r evs) (auto split: sum.splits prod.splits)

lemma get_args_fields:
  assumes "get_args env raw_args raw_kwargs h = (r, h', evs)"
  shows "called_once h' = called_once h \<and> transforms h' = transforms h
     \<and> finished h' = finished h \<and> redirection h' = redirection h
     \<and> (\<forall>a kw. r = Inr (a, kw) \<longrightarrow> cached_args h' = Some (a, kw))
     \<and> (\<forall>c. cached_args h = Some c \<longrightarrow> r = Inr c \<and> h' = h \<and> evs = [])"
  using assms
  by (auto simp: get_args_def split: option.splits prod.splits sum.splits)

lemma get_args_events:
  assumes "get_args env raw_args raw_kwargs h = (r, h', evs)"
  shows "constructed evs = [] \<and> stage_names st evs = [] \<and> action_calls evs = []
     \<and> super_redirects evs = [] \<and> redirect_requests evs = []"
  using assms
  by (auto simp: get_args_def split: option.splits prod.splits sum.splits
      dest: decode_args_events decode_kwargs_events)

subsection \<open>phases\<close>

lemma sent_redirect_events [simp]:
  "constructed (sent_redirect r) = []"
  "stage_names st (sent_redirect r) = []"
  "action_calls (sent_redirect r) = []"
  "preamble_events (sent_redirect r) = []"
  "redirect_requests (sent_redirect r) = []"
  "super_redirects (sent_redirect r) = (case r of None \<Rightarrow> [] | Some x \<Rightarrow> [x])"
  "Ev_super_finish \<notin> set (sent_redirect r)"
  by (simp_all add: sent_redirect_def split: option.splits)

lemma try_redirect_eq:
  "try_redirect h =
     ((if finished h \<and> redirection h \<noteq> None
       then Some (Exception ''Cannot redirect after headers have been written'') else None),
      h, sent_redirect (redirection h))"
  by (simp add: try_redirect_def sent_redirect_def split: option.splits)

lemma after_phase_cases:
  assumes "after_phase ex a kw h = (out, h', evs)"
  obtains (stopped) "stage_loop After ex a kw h = (out, h', evs)" "out \<noteq> Completed"
  | (refused) e1 where
      "stage_loop After ex a kw h = (Completed, h', e1)"
      "finished h'" "redirection h' \<noteq> None"
      "out = Raised (Exception ''Cannot redirect after headers have been written'')"
      "evs = e1 @ sent_redirect (redirection h')"
  | (cleanup) h1 e1 e4 where
      "stage_loop After ex a kw h = (Completed, h1, e1)"
      "stage_loop After_finish ex a kw (if finished h1 then h1 else h1\<lparr>finished := True\<rparr>) = (out, h', e4)"
      "evs = e1 @ sent_redirect (redirection h1) @ (if finished h1 then [] else [Ev_super_finish]) @ e4"
      "\<not> (finished h1 \<and> redirection h1 \<noteq> None)"
proof -
  obtain o1 h1 e1 where s: "stage_loop After ex a kw h = (o1, h1, e1)"
    by (metis prod_cases3)
  show thesis
  proof (cases "o1 = Completed")
    case False
    with assms s have "stage_loop After ex a kw h = (out, h', evs)" "out \<noteq> Completed"
      by (auto simp: after_phase_def split: outcome.splits)
    then show thesis by (rule stopped)
  next
    case True
    show thesis
    proof (cases "finished h1 \<and> redirection h1 \<noteq> None")
      case r: True
      with assms s \<open>o1 = Completed\<close>
      have a: "out = Raised (Exception ''Cannot redirect after headers have been written'')"
        and b: "h1 = h'" and c: "evs = e1 @ sent_redirect (redirection h1)"
        by (auto simp: after_phase_def try_redirect_eq)
      show thesis
      proof (rule refused)
        show "stage_loop After ex a kw h = (Completed, h', e1)"
          using s \<open>o1 = Completed\<close> b by simp
        show "finished h'" "redirection h' \<noteq> None"
          using r b by simp_all
        show "out = Raised (Exception ''Cannot redirect after headers have been written'')"
          by (rule a)
        show "evs = e1 @ sent_redirect (redirection h')"
          using c b by simp
      qed
    next
      case r: False
      obtain o4 h4 e4 where
        f: "stage_loop After_finish ex a kw (if finished h1 then h1 else h1\<lparr>finished := True\<rparr>) = (o4, h4, e4)"
        by (metis prod_cases3)
      from assms s \<open>o1 = Completed\<close> f r
      have "out = o4 \<and> h' = h4
          \<and> evs = e1 @ sent_redirect (redirection h1) @ (if finished h1 then [] else [Ev_super_finish]) @ e4"
        by (auto simp: after_phase_def try_redirect_eq do_finish_def)
      with s \<open>o1 = Completed\<close> f r show thesis by (auto intro: cleanup)
    qed
  qed
qed

lemma execute_cases:
  assumes "execute env tr raw_args raw_kwargs h = (out, h', evs)"
  obtains (rejected) e where
      "\<not> called_once h"
      "first_call_checks env (h\<lparr>transforms := tr, called_once := True\<rparr>) = (Some e, h', evs)"
      "out = Raised e"
  | (undecodable) e h1 e1 e2 where
      "(if called_once h then (None, h\<lparr>transforms := tr, called_once := True\<rparr>, [])
        else first_call_checks env (h\<lparr>transforms := tr, called_once := True\<rparr>)) = (None, h1, e1)"
      "get_args env raw_args raw_kwargs h1 = (Inl e, h', e2)"
      "evs = e1 @ e2" "out = Raised e"
  | (action_only) a kw h1 e1 h2 e2 ex e3 where
      "(if called_once h then (None, h\<lparr>transforms := tr, called_once := True\<rparr>, [])
        else first_call_checks env (h\<lparr>transforms := tr, called_once := True\<rparr>)) = (None, h1, e1)"
      "get_args env raw_args raw_kwargs h1 = (Inr (a, kw), h2, e2)"
      "try_block env (\<not> called_once h) a kw h2 = (out, ex, h', e3)"
      "evs = e1 @ e2 @ e3" "called_once h \<or> out \<noteq> Completed"
  | (full) a kw h1 e1 h2 e2 ex h3 e3 e4 where
      "\<not> called_once h"
      "first_call_checks env (h\<lparr>transforms := tr, called_once := True\<rparr>) = (None, h1, e1)"
      "get_args env raw_args raw_kwargs h1 = (Inr (a, kw), h2, e2)"
      "try_block env True a kw h2 = (Completed, ex, h3, e3)"
      "after_phase ex a kw h3 = (out, h', e4)"
      "evs = e1 @ e2 @ e3 @ e4"
proof -
  let ?h0 = "h\<lparr>transforms := tr, called_once := True\<rparr>"
  obtain err h1 e1 where
    c: "(if called_once h then (None, ?h0, []) else first_call_checks env ?h0) = (err, h1, e1)"
    by (metis prod_cases3)
  show thesis
  proof (cases err)
    case (Some e)
    with c have nc: "\<not> called_once h" by (auto split: if_splits)
    with c Some have fc: "first_call_checks env ?h0 = (Some e, h1, e1)" by simp
    with assms nc have "out = Raised e \<and> h' = h1 \<and> evs = e1"
      by (simp add: execute_def)
    with nc fc show thesis by (auto intro: rejected)
  next
    case None
    obtain r h2 e2 where g: "get_args env raw_args raw_kwargs h1 = (r, h2, e2)"
      by (metis prod_cases3)
    show thesis
    proof (cases r)
      case (Inl e)
      with assms c None g have "out = Raised e \<and> h' = h2 \<and> evs = e1 @ e2"
        by (cases "called_once h") (auto simp: execute_def)
      with c None g Inl show thesis by (auto intro: undecodable)
    next
      case (Inr p)
      obtain a kw where p: "p = (a, kw)" by (cases p)
      obtain o3 ex h3 e3 where t: "try_block env (\<not> called_once h) a kw h2 = (o3, ex, h3, e3)"
        by (metis prod_cases4)
      show thesis
      proof (cases "called_once h \<or> o3 \<noteq> Completed")
        case True
        with assms c None g Inr p t have "out = o3 \<and> h' = h3 \<and> evs = e1 @ e2 @ e3"
          by (cases "called_once h") (auto simp: execute_def split: outcome.splits)
        with c None g Inr p t True show thesis by (auto intro: action_only)
      next
        case False
        then have nc: "\<not> called_once h" and o3: "o3 = Completed" by auto
        obtain o4 h4 e4 where ap: "after_phase ex a kw h3 = (o4, h4, e4)"
          by (metis prod_cases3)
        from assms c None g Inr p t nc o3 ap
        have "out = o4 \<and> h' = h4 \<and> evs = e1 @ e2 @ e3 @ e4"
          by (auto simp: execute_def)
        with c None g Inr p t nc o3 ap show thesis by (auto intro: full)
      qed
    qed
  qed
qed

section \<open>The completion callback of the adapter\<close>

lemma run_cmds_callback_count [simp]: "callback_count c (snd (run_cmds cs h)) = 0"
proof (induction cs arbitrary: h)
  case Nil
  then show ?case by (simp add: callback_count_def)
next
  case (Cons x cs)
  have "callback_count c (snd (exec_cmd x h)) = 0"
    by (cases x) (simp_all add: callback_count_def redirect_def finish_def do_finish_def split_beta)
  with Cons show ?case
    by (simp add: callback_count_def split_beta)
qed

text \<open>
  C1, as stated, fails on the error path: a wrapped callable that raises lets the exception
  propagate to the caller of \<^verbatim>\<open>wrapper\<close> (decorators.py, line 78), and the supplied
  callback is not invoked at all.
\<close>

theorem callback_not_invoked_on_error:
  "fst (wrapper (Callable ''f'') (Func [] (Raise (Exception ''boom''))) [] [] (Some (notify ''cb'')) init_handler)
     = Raised (Exception ''boom'')
   \<and> callback_count ''cb''
       (snd (snd (wrapper (Callable ''f'') (Func [] (Raise (Exception ''boom''))) [] []
          (Some (notify ''cb'')) init_handler))) = 0"
  by (simp add: wrapper_def callback_count_def)

text \<open>
  C1, amended. For every wrapped callable, a supplied completion callback is invoked
  exactly once, after all the work of the callable, when the callable returns
  \<^verbatim>\<open>None\<close> or returns a generator that is driven to its end; it is invoked zero times
  when the callable raises, returns any other value, or returns a generator that raises or
  stays suspended for ever. It is never invoked twice.
\<close>

theorem callback_once_when_completed:
  "fst (wrapper name f a kw (Some (notify c)) h) = func_outcome f
   \<and> callback_count c (snd (snd (wrapper name f a kw (Some (notify c)) h)))
       = (if func_outcome f = Completed then 1 else 0)
   \<and> (func_outcome f = Completed
       \<longleftrightarrow> result f = Return_None \<or> (\<exists>g. result f = Return_generator g \<and> gen_outcome g = Completed))
   \<and> wrapper name f a kw (Some cb) h =
       (if func_outcome f = Completed
        then (Completed, fst (cb (fst (run_cmds (func_cmds f) h))),
              Ev_call name a kw # snd (run_cmds (func_cmds f) h)
                @ snd (cb (fst (run_cmds (func_cmds f) h))))
        else (func_outcome f, fst (run_cmds (func_cmds f) h),
              Ev_call name a kw # snd (run_cmds (func_cmds f) h)))"
proof -
  have 1: "fst (wrapper name f a kw (Some (notify c)) h) = func_outcome f"
    by (simp add: wrapper_eq)
  have 2: "callback_count c (snd (snd (wrapper name f a kw (Some (notify c)) h)))
       = (if func_outcome f = Completed then 1 else 0)"
    using run_cmds_callback_count [of c "func_cmds f" h]
    by (simp add: wrapper_eq wrapper_done_def notify_def callback_count_def)
  have 3: "func_outcome f = Completed
       \<longleftrightarrow> result f = Return_None \<or> (\<exists>g. result f = Return_generator g \<and> gen_outcome g = Completed)"
    by (cases "result f") (simp_all add: func_outcome_def)
  have 4: "wrapper name f a kw (Some cb) h =
       (if func_outcome f = Completed
        then (Completed, fst (cb (fst (run_cmds (func_cmds f) h))),
              Ev_call name a kw # snd (run_cmds (func_cmds f) h)
                @ snd (cb (fst (run_cmds (func_cmds f) h))))
        else (func_outcome f, fst (run_cmds (func_cmds f) h),
              Ev_call name a kw # snd (run_cmds (func_cmds f) h)))"
    by (simp add: wrapper_eq wrapper_done_def)
  from 1 2 3 4 show ?thesis by blast
qed

section \<open>The middleware list of a handler class\<close>

lemma assemble_eq: "assemble bases own = concat (rev (map get_default bases)) @ own"
  by (induction bases arbitrary: own) simp_all

lemma subclass_chain_eq:
  "subclass_chain base_middleware dcts = base_middleware @ concat (map get_default dcts)"
  by (induction dcts arbitrary: base_middleware)
     (simp_all add: MiddlewareRequestMeta_new_def get_default_def)

text \<open>
  C3, as stated, fails for a class with two bases: with bases whose lists are \<open>[1]\<close> and
  \<open>[2]\<close>, in this order, and own additions \<open>[3]\<close>, the loop of lines 25--27 puts each
  later base in front and yields \<open>[2, 1, 3]\<close>, not the bases' lists in the order of
  the bases followed by the additions.
\<close>

theorem middleware_list_not_in_base_order:
  "MiddlewareRequestMeta_new [Some [1::nat], Some [2]] (Some [3]) = [2, 1, 3]
   \<and> MiddlewareRequestMeta_new [Some [1::nat], Some [2]] (Some [3])
       \<noteq> ancestor_order_list [Some [1], Some [2]] (Some [3])"
  by (simp add: MiddlewareRequestMeta_new_def ancestor_order_list_def get_default_def)

text \<open>
  C3, amended. The effective middleware list of a handler class is the lists of its bases
  concatenated in the reverse of the order in which the bases are given (the last base's
  list first), followed by the class's own additions. For a single base this is the base's
  list followed by the additions, so along a single-inheritance chain it is the additions
  of the ancestors, oldest first, with the final subtype's additions last.
\<close>

theorem middleware_list_assembled:
  "MiddlewareRequestMeta_new bases dct_middleware =
     concat (rev (map get_default bases)) @ get_default dct_middleware
   \<and> MiddlewareRequestMeta_new [base] dct_middleware = ancestor_order_list [base] dct_middleware
   \<and> subclass_chain base_middleware dcts = base_middleware @ concat (map get_default dcts)"
  by (simp add: MiddlewareRequestMeta_new_def assemble_eq subclass_chain_eq ancestor_order_list_def)

section \<open>Validation\<close>

text \<open>
  C7. On a first call (the has-run-once flag not yet set) for a request whose method is
  not among the supported methods, the executor raises \<^verbatim>\<open>HTTPError(405)\<close>; the dispatch
  has no event at all, so neither \<^verbatim>\<open>prepare\<close>, nor a \<^verbatim>\<open>before\<close> stage, nor the action
  has run.
\<close>

theorem unsupported_method_rejected:
  assumes "\<not> called_once h" and "request_method env \<notin> set (SUPPORTED_METHODS env)"
  shows "execute env tr raw_args raw_kwargs h =
           (Raised (HTTPError 405), h\<lparr>transforms := tr, called_once := True\<rparr>, [])"
  using assms by (simp add: execute_def first_call_checks_def)

theorem unsupported_method_rejected_witness:
  "\<not> called_once init_handler
   \<and> request_method trace_request \<notin> set (SUPPORTED_METHODS trace_request)
   \<and> execute trace_request [] [''7''] [] init_handler =
       (Raised (HTTPError 405), init_handler\<lparr>transforms := [], called_once := True\<rparr>, [])"
proof -
  have a: "\<not> called_once init_handler"
    by (simp add: init_handler_def)
  have b: "request_method trace_request \<notin> set (SUPPORTED_METHODS trace_request)"
    by (simp add: trace_request_def tornado_methods_def)
  from unsupported_method_rejected [OF a b, of "[]" "[''7'']" "[]"] a b show ?thesis
    by simp
qed

section \<open>Order of the stages\<close>

lemma ran_names_prefix: "prefix (map mw_name (ran st ms)) (map mw_name ms)"
  by (rule map_mono_prefix) (rule ran_prefix)

lemma entered_names_prefix: "prefix (map mw_name (entered ms)) (map mw_name ms)"
  by (rule map_mono_prefix) (rule entered_prefix)

lemma prefix_take_length: "prefix xs ys \<Longrightarrow> xs = take (length xs) ys"
  by (auto simp: prefix_def)

lemma after_phase_names:
  assumes "after_phase ex a kw h = (out, h', evs)"
  shows "constructed evs = [] \<and> stage_names Before evs = [] \<and> action_calls evs = []
     \<and> prefix (stage_names After evs) (map mw_name ex)
     \<and> prefix (stage_names After_finish evs) (map mw_name ex)
     \<and> (out = Completed \<longrightarrow>
          stage_names After evs = map mw_name ex \<and> stage_names After_finish evs = map mw_name ex)"
  using assms
proof (cases rule: after_phase_cases)
  case stopped
  from stage_loop_events [OF stopped(1), of After] stage_loop_events [OF stopped(1), of Before]
    stage_loop_events [OF stopped(1), of After_finish] stopped(2) ran_names_prefix [of After ex]
  show ?thesis by auto
next
  case (cleanup h1 e1 e4)
  from stage_loop_events [OF cleanup(1), of After] stage_loop_events [OF cleanup(1), of Before]
    stage_loop_events [OF cleanup(1), of After_finish]
    stage_loop_events [OF cleanup(2), of After] stage_loop_events [OF cleanup(2), of Before]
    stage_loop_events [OF cleanup(2), of After_finish] cleanup(3) ran_names_prefix [of After_finish ex]
  show ?thesis by auto
next
  case (refused e1)
  from stage_loop_events [OF refused(1), of After] stage_loop_events [OF refused(1), of Before]
    stage_loop_events [OF refused(1), of After_finish] refused(4,5)
  show ?thesis by auto
qed

text \<open>
  C2, as stated, fails for a dispatch in which the action raises an ordinary exception:
  the one middleware was constructed and its \<^verbatim>\<open>before\<close> stage entered, but only
  \<^verbatim>\<open>InterruptRequest\<close> is caught (line 146), so neither its \<^verbatim>\<open>after\<close> nor its
  \<^verbatim>\<open>after_finish\<close> stage runs.
\<close>

theorem entered_middleware_skipped_on_error:
  "fst (execute failing_request [] [] [] init_handler) = Raised (Exception ''boom'')
   \<and> constructed (snd (snd (execute failing_request [] [] [] init_handler))) = [''m1'']
   \<and> stage_names Before (snd (snd (execute failing_request [] [] [] init_handler))) = [''m1'']
   \<and> stage_names After (snd (snd (execute failing_request [] [] [] init_handler))) = []
   \<and> stage_names After_finish (snd (snd (execute failing_request [] [] [] init_handler))) = []"
  by code_simp

text \<open>
  C2, amended. In every dispatch the middleware whose \<^verbatim>\<open>before\<close> stage is entered are
  exactly those constructed, they are the first k entries of the class's middleware list
  for some k, and the \<^verbatim>\<open>after\<close> and the \<^verbatim>\<open>after_finish\<close> stages run only for them, in
  the reverse of their entry order (each loop runs an initial part of that reversed
  order). In a dispatch that completes, which includes one whose BEFORE was interrupted
  at entry k, both loops run for exactly the entered middleware, all of them, in exact
  reverse of entry order.
\<close>

theorem after_stages_reverse_entry_order:
  assumes "execute env tr raw_args raw_kwargs h = (out, h', evs)"
  shows "stage_names Before evs = constructed evs
     \<and> prefix (constructed evs) (map mw_name (middleware env))
     \<and> constructed evs = take (length (constructed evs)) (map mw_name (middleware env))
     \<and> prefix (stage_names After evs) (rev (constructed evs))
     \<and> prefix (stage_names After_finish evs) (rev (constructed evs))
     \<and> (out = Completed \<longrightarrow>
          stage_names After evs = rev (constructed evs)
          \<and> stage_names After_finish evs = rev (constructed evs))"
proof -
  have main: "stage_names Before evs = constructed evs
     \<and> prefix (constructed evs) (map mw_name (middleware env))
     \<and> prefix (stage_names After evs) (rev (constructed evs))
     \<and> prefix (stage_names After_finish evs) (rev (constructed evs))
     \<and> (out = Completed \<longrightarrow>
          stage_names After evs = rev (constructed evs)
          \<and> stage_names After_finish evs = rev (constructed evs))"
    using assms
  proof (cases rule: execute_cases)
    case (rejected e)
    from first_call_checks_events [OF rejected(2)] rejected(3) show ?thesis by simp
  next
    case (undecodable e h1 e1 e2)
    have "constructed e1 = [] \<and> (\<forall>st. stage_names st e1 = [])"
      using undecodable(1) first_call_checks_events [of env _ None h1 e1]
      by (cases "called_once h") auto
    with get_args_events [OF undecodable(2)] undecodable(3,4) show ?thesis by simp
  next
    case (action_only a kw h1 e1 h2 e2 ex e3)
    have 1: "constructed e1 = [] \<and> (\<forall>st. stage_names st e1 = [])"
      using action_only(1) first_call_checks_events [of env _ None h1 e1]
      by (cases "called_once h") auto
    have 2: "constructed e2 = [] \<and> (\<forall>st. stage_names st e2 = [])"
      using get_args_events [OF action_only(2)] by simp
    have 3: "prefix (map mw_name (rev ex)) (map mw_name (middleware env))"
      using try_block_events [OF action_only(3), of Before] entered_names_prefix [of "middleware env"]
      by auto
    have 4: "out = Completed \<longrightarrow> ex = []"
      using try_block_events [OF action_only(3), of Before] action_only(5) by auto
    from 1 2 3 4 try_block_events [OF action_only(3), of Before]
      try_block_events [OF action_only(3), of After]
      try_block_events [OF action_only(3), of After_finish] action_only(4)
    show ?thesis by simp
  next
    case (full a kw h1 e1 h2 e2 ex h3 e3 e4)
    have 1: "constructed e1 = [] \<and> (\<forall>st. stage_names st e1 = [])"
      using first_call_checks_events [OF full(2)] by simp
    have 2: "constructed e2 = [] \<and> (\<forall>st. stage_names st e2 = [])"
      using get_args_events [OF full(3)] by simp
    have 3: "prefix (map mw_name (rev ex)) (map mw_name (middleware env))"
      using try_block_events [OF full(4), of Before] entered_names_prefix [of "middleware env"]
      by auto
    from 1 2 3 try_block_events [OF full(4), of Before] try_block_events [OF full(4), of After]
      try_block_events [OF full(4), of After_finish] after_phase_names [OF full(5)] full(6)
    show ?thesis by (simp add: rev_map)
  qed
  from main have "prefix (constructed evs) (map mw_name (middleware env))"
    by blast
  then have "constructed evs = take (length (constructed evs)) (map mw_name (middleware env))"
    by (rule prefix_take_length)
  with main show ?thesis by blast
qed

theorem after_stages_reverse_entry_order_witness:
  "fst (execute interrupted_request [] [''7''] [] init_handler) = Completed
   \<and> constructed (snd (snd (execute interrupted_request [] [''7''] [] init_handler))) = [''m1'', ''m2'']
   \<and> stage_names Before (snd (snd (execute interrupted_request [] [''7''] [] init_handler))) = [''m1'', ''m2'']
   \<and> stage_names After (snd (snd (execute interrupted_request [] [''7''] [] init_handler))) = [''m2'', ''m1'']
   \<and> stage_names After_finish (snd (snd (execute interrupted_request [] [''7''] [] init_handler))) = [''m2'', ''m1'']"
proof -
  have c: "fst (execute interrupted_request [] [''7''] [] init_handler) = Completed"
    by code_simp
  have k: "constructed (snd (snd (execute interrupted_request [] [''7''] [] init_handler))) = [''m1'', ''m2'']"
    by code_simp
  have e: "execute interrupted_request [] [''7''] [] init_handler =
      (fst (execute interrupted_request [] [''7''] [] init_handler),
       fst (snd (execute interrupted_request [] [''7''] [] init_handler)),
       snd (snd (execute interrupted_request [] [''7''] [] init_handler)))"
    by simp
  from after_stages_reverse_entry_order [OF e] c k show ?thesis by simp
qed

section \<open>The interrupt signal\<close>

text \<open>
  C4, as stated, fails when the \<^verbatim>\<open>after\<close> stage of the second middleware itself raises: the
  interrupt raised in its \<^verbatim>\<open>before\<close> is caught and its \<^verbatim>\<open>after\<close> is entered, but the
  exception of that stage ends the dispatch, so the \<^verbatim>\<open>after\<close> of the first middleware and both
  \<^verbatim>\<open>after_finish\<close> stages never run.
\<close>

theorem interrupt_then_failing_after:
  "stage_names Before (snd (snd (execute failing_after_request [] [] [] init_handler))) = [''m1'', ''m2'']
   \<and> stage_names After (snd (snd (execute failing_after_request [] [] [] init_handler))) = [''m2'']
   \<and> stage_names After_finish (snd (snd (execute failing_after_request [] [] [] init_handler))) = []
   \<and> fst (execute failing_after_request [] [] [] init_handler) = Raised (Exception ''boom'')"
  by code_simp

text \<open>
  C4, amended. On a first call that reaches the BEFORE loop of a class with three
  middleware, if the first \<^verbatim>\<open>before\<close> completes and the second raises
  \<^verbatim>\<open>InterruptRequest\<close> before it has been suspended, then the \<^verbatim>\<open>try\<close> statement ends
  normally with exactly the first two middleware constructed and entered: nothing of the
  third runs, the action is never called, and the signal is consumed, the AFTER loop
  starting with the \<^verbatim>\<open>after\<close> of the second. The \<^verbatim>\<open>after\<close> of the first runs when that of
  the second completes. When the AFTER loop completes and the deferred redirect is not
  refused (a redirect pending on a finished response raises), the AFTER\_FINISH loop
  starts with the second; when its \<^verbatim>\<open>after_finish\<close> completes that of the first runs, and
  the dispatch ends as it ends.
\<close>

theorem interrupt_in_second_before:
  assumes first: "\<not> called_once h"
    and checks: "first_call_checks env (h\<lparr>transforms := tr, called_once := True\<rparr>) = (None, h1, e1)"
    and decoded: "get_args env raw_args raw_kwargs h1 = (Inr (a, kw), h2, e2)"
    and three: "middleware env = [m1, m2, m3]"
    and m1: "mw_init m1 = None" "func_outcome (mw_before m1) = Completed"
    and m2: "mw_init m2 = None" "func_outcome (mw_before m2) = Raised InterruptRequest"
    and tried: "try_block env True a kw h2 = (out3, executed, h3, e3)"
    and afters: "stage_loop After [m2, m1] a kw h3 = (out4, h4, e4)"
    and run: "execute env tr raw_args raw_kwargs h = (out, h', evs)"
  shows "out3 = Completed \<and> executed = [m2, m1]
     \<and> constructed evs = [mw_name m1, mw_name m2]
     \<and> stage_names Before evs = [mw_name m1, mw_name m2]
     \<and> action_calls evs = []
     \<and> stage_names After evs \<noteq> [] \<and> hd (stage_names After evs) = mw_name m2
     \<and> (func_outcome (mw_after m2) = Completed \<longrightarrow>
          stage_names After evs = [mw_name m2, mw_name m1])
     \<and> (out4 = Completed \<and> \<not> (finished h4 \<and> redirection h4 \<noteq> None) \<longrightarrow>
          stage_names After_finish evs \<noteq> []
          \<and> hd (stage_names After_finish evs) = mw_name m2
          \<and> (func_outcome (mw_after_finish m2) = Completed \<longrightarrow>
                stage_names After_finish evs = [mw_name m2, mw_name m1]
                \<and> out = func_outcome (mw_after_finish m1)))
     \<and> (mw_name m3 \<notin> {mw_name m1, mw_name m2} \<longrightarrow>
          mw_name m3 \<notin> set (constructed evs) \<and> (\<forall>st. mw_name m3 \<notin> set (stage_names st evs)))"
proof -
  have p1: "constructed e1 = [] \<and> (\<forall>st. stage_names st e1 = []) \<and> action_calls e1 = []"
    using first_call_checks_events [OF checks] by simp
  have p2: "constructed e2 = [] \<and> (\<forall>st. stage_names st e2 = []) \<and> action_calls e2 = []"
    using get_args_events [OF decoded] by simp
  from tried three m1 m2
  have t: "out3 = Completed" "executed = [m2, m1]"
    and p3: "constructed e3 = [mw_name m1, mw_name m2]"
      "stage_names Before e3 = [mw_name m1, mw_name m2]"
      "stage_names After e3 = []" "stage_names After_finish e3 = []" "action_calls e3 = []"
    by (auto simp: try_block_def Task_eq Let_def)
  obtain out5 h5 e5 where ap: "after_phase [m2, m1] a kw h3 = (out5, h5, e5)"
    by (metis prod_cases3)
  from run first checks decoded tried t ap
  have res: "out = out5" "evs = e1 @ e2 @ e3 @ e5"
    by (simp_all add: execute_def)
  have ran_after: "ran After [m2, m1] = m2 # (if func_outcome (mw_after m2) = Completed then [m1] else [])"
    by simp
  have ran_fin: "ran After_finish [m2, m1] =
      m2 # (if func_outcome (mw_after_finish m2) = Completed then [m1] else [])"
    by simp
  from ap have p5: "constructed e5 = [] \<and> stage_names Before e5 = [] \<and> action_calls e5 = []
      \<and> stage_names After e5 = map mw_name (ran After [m2, m1])
      \<and> (out4 = Completed \<and> \<not> (finished h4 \<and> redirection h4 \<noteq> None) \<longrightarrow>
           stage_names After_finish e5 = map mw_name (ran After_finish [m2, m1])
           \<and> (func_outcome (mw_after_finish m2) = Completed \<longrightarrow>
                 out5 = func_outcome (mw_after_finish m1)))
      \<and> set (stage_names After_finish e5) \<subseteq> {mw_name m1, mw_name m2}"
  proof (cases rule: after_phase_cases)
    case stopped
    from stopped afters stage_loop_events [OF stopped(1), of After]
      stage_loop_events [OF stopped(1), of Before] stage_loop_events [OF stopped(1), of After_finish]
    show ?thesis by auto
  next
    case (refused eA)
    from refused afters stage_loop_events [OF refused(1), of After]
      stage_loop_events [OF refused(1), of Before] stage_loop_events [OF refused(1), of After_finish]
    show ?thesis by auto
  next
    case (cleanup hA eA eF)
    have o: "func_outcome (mw_after_finish m2) = Completed \<longrightarrow>
        out5 = func_outcome (mw_after_finish m1)"
      using cleanup(2) by (auto simp: Task_eq split_beta split: outcome.splits)
    have sub: "set (map mw_name (ran After_finish [m2, m1])) \<subseteq> {mw_name m1, mw_name m2}"
      by auto
    from cleanup afters o sub stage_loop_events [OF cleanup(1), of After]
      stage_loop_events [OF cleanup(1), of Before] stage_loop_events [OF cleanup(1), of After_finish]
      stage_loop_events [OF cleanup(2), of After]
      stage_loop_events [OF cleanup(2), of Before] stage_loop_events [OF cleanup(2), of After_finish]
    show ?thesis by (simp del: ran.simps)
  qed
  from p1 p2 p3 p5 res ran_after ran_fin t
  have main: "out3 = Completed \<and> executed = [m2, m1]
     \<and> constructed evs = [mw_name m1, mw_name m2]
     \<and> stage_names Before evs = [mw_name m1, mw_name m2]
     \<and> action_calls evs = []
     \<and> stage_names After evs \<noteq> [] \<and> hd (stage_names After evs) = mw_name m2
     \<and> (func_outcome (mw_after m2) = Completed \<longrightarrow>
          stage_names After evs = [mw_name m2, mw_name m1])
     \<and> (out4 = Completed \<and> \<not> (finished h4 \<and> redirection h4 \<noteq> None) \<longrightarrow>
          stage_names After_finish evs \<noteq> []
          \<and> hd (stage_names After_finish evs) = mw_name m2
          \<and> (func_outcome (mw_after_finish m2) = Completed \<longrightarrow>
                stage_names After_finish evs = [mw_name m2, mw_name m1]
                \<and> out = func_outcome (mw_after_finish m1)))"
    by (simp del: ran.simps)
  have names: "\<And>st. set (stage_names st evs) \<subseteq> {mw_name m1, mw_name m2}"
  proof -
    fix st
    show "set (stage_names st evs) \<subseteq> {mw_name m1, mw_name m2}"
      using p1 p2 p3 p5 res ran_after by (cases st) (auto simp del: ran.simps split: if_splits)
  qed
  have "set (constructed evs) \<subseteq> {mw_name m1, mw_name m2}"
    using main by simp
  with names main show ?thesis by auto
qed

theorem interrupt_in_second_before_witness:
  "\<not> called_once init_handler
   \<and> middleware interrupted_request = [Middleware ''m1'', interrupting ''m2'', Middleware ''m3'']
   \<and> func_outcome (mw_before (interrupting ''m2'')) = Raised InterruptRequest
   \<and> constructed (snd (snd (execute interrupted_request [] [''7''] [] init_handler))) = [''m1'', ''m2'']
   \<and> stage_names Before (snd (snd (execute interrupted_request [] [''7''] [] init_handler))) = [''m1'', ''m2'']
   \<and> stage_names After (snd (snd (execute interrupted_request [] [''7''] [] init_handler))) = [''m2'', ''m1'']
   \<and> stage_names After_finish (snd (snd (execute interrupted_request [] [''7''] [] init_handler))) = [''m2'', ''m1'']
   \<and> action_calls (snd (snd (execute interrupted_request [] [''7''] [] init_handler))) = []
   \<and> fst (execute interrupted_request [] [''7''] [] init_handler) = Completed
   \<and> ''m3'' \<notin> set (constructed (snd (snd (execute interrupted_request [] [''7''] [] init_handler))))"
proof -
  let ?h0 = "init_handler\<lparr>transforms := [], called_once := True\<rparr>"
  let ?c = "first_call_checks interrupted_request ?h0"
  let ?g = "get_args interrupted_request [''7''] [] (fst (snd ?c))"
  let ?t = "try_block interrupted_request True [''7''] [] (fst (snd ?g))"
  let ?s = "stage_loop After [interrupting ''m2'', Middleware ''m1''] [''7''] [] (fst (snd (snd ?t)))"
  let ?x = "execute interrupted_request [] [''7''] [] init_handler"
  have first: "\<not> called_once init_handler"
    by (simp add: init_handler_def)
  have "fst ?c = None"
    by code_simp
  then have checks: "?c = (None, fst (snd ?c), snd (snd ?c))"
    by (metis prod.collapse)
  have "fst ?g = Inr ([''7''], [])"
    by code_simp
  then have decoded: "?g = (Inr ([''7''], []), fst (snd ?g), snd (snd ?g))"
    by (metis prod.collapse)
  have three: "middleware interrupted_request = [Middleware ''m1'', interrupting ''m2'', Middleware ''m3'']"
    by (simp add: interrupted_request_def)
  have m1: "mw_init (Middleware ''m1'') = None" "func_outcome (mw_before (Middleware ''m1'')) = Completed"
    by (simp_all add: Middleware_def noop_def func_outcome_def)
  have m2: "mw_init (interrupting ''m2'') = None"
    "func_outcome (mw_before (interrupting ''m2'')) = Raised InterruptRequest"
    by (simp_all add: interrupting_def Middleware_def noop_def func_outcome_def)
  have tried: "?t = (fst ?t, fst (snd ?t), fst (snd (snd ?t)), snd (snd (snd ?t)))"
    by simp
  have afters: "?s = (fst ?s, fst (snd ?s), snd (snd ?s))"
    by simp
  have run: "?x = (fst ?x, fst (snd ?x), snd (snd ?x))"
    by simp
  have completed: "func_outcome (mw_after (interrupting ''m2'')) = Completed"
    "func_outcome (mw_after_finish (interrupting ''m2'')) = Completed"
    "func_outcome (mw_after_finish (Middleware ''m1'')) = Completed"
    by (simp_all add: interrupting_def Middleware_def noop_def func_outcome_def)
  have loop: "fst ?s = Completed" "\<not> finished (fst (snd ?s))"
    by code_simp+
  have names: "mw_name (Middleware ''m1'') = ''m1''" "mw_name (interrupting ''m2'') = ''m2''"
    "mw_name (Middleware ''m3'') = ''m3''"
    by (simp_all add: interrupting_def Middleware_def)
  from interrupt_in_second_before [OF first checks decoded three m1 m2 tried afters run]
    first three m2(2) completed loop names
  show ?thesis by simp
qed

text \<open>
  The two other conditions of the amended statement. When the second middleware has
  finalized the response and asked for a redirect, both \<^verbatim>\<open>after\<close> stages run but the
  deferred redirect is refused, and no \<^verbatim>\<open>after_finish\<close> stage runs. When its
  \<^verbatim>\<open>before\<close> raises the signal only after a suspension, the signal does not reach the
  \<^verbatim>\<open>except\<close> clause, and no \<^verbatim>\<open>after\<close> stage runs.
\<close>

lemma interrupt_then_refused_redirect:
  "stage_names After (snd (snd (execute interrupted_redirecting_request [] [] [] init_handler)))
     = [''m2'', ''m1'']
   \<and> stage_names After_finish (snd (snd (execute interrupted_redirecting_request [] [] [] init_handler)))
     = []
   \<and> fst (execute interrupted_redirecting_request [] [] [] init_handler)
     = Raised (Exception ''Cannot redirect after headers have been written'')"
  by code_simp

lemma late_interrupt_not_caught:
  "stage_names Before (snd (snd (execute late_interrupt_request [] [] [] init_handler)))
     = [''m1'', ''m2'']
   \<and> stage_names After (snd (snd (execute late_interrupt_request [] [] [] init_handler))) = []
   \<and> fst (execute late_interrupt_request [] [] [] init_handler) = Raised_late InterruptRequest"
  by code_simp

section \<open>The deferred redirect\<close>

lemma execute_redirect_shape:
  assumes "execute env tr raw_args raw_kwargs h = (out, h', evs)"
  shows "\<exists>pre tail. super_redirects pre = [] \<and> super_redirects tail = []
     \<and> stage_names After tail = []
     \<and> ((evs = pre \<and> (called_once h \<or> out \<noteq> Completed))
        \<or> (evs = pre @ sent_redirect (pending_after (redirect_requests pre) (redirection h)) @ tail
            \<and> stage_names After pre = rev (constructed evs) \<and> \<not> called_once h))"
  using assms
proof (cases rule: execute_cases)
  case (rejected e)
  from first_call_checks_events [OF rejected(2)] rejected(3)
  have "super_redirects evs = [] \<and> super_redirects [] = [] \<and> stage_names After [] = []
      \<and> evs = evs \<and> out \<noteq> Completed"
    by simp
  then show ?thesis by blast
next
  case (undecodable e h1 e1 e2)
  have "super_redirects e1 = []"
    using undecodable(1) first_call_checks_events [of env _ None h1 e1]
    by (cases "called_once h") auto
  with get_args_events [OF undecodable(2)] undecodable(3,4)
  have "super_redirects evs = [] \<and> super_redirects [] = [] \<and> stage_names After [] = []
      \<and> evs = evs \<and> out \<noteq> Completed"
    by simp
  then show ?thesis by blast
next
  case (action_only a kw h1 e1 h2 e2 ex e3)
  have "super_redirects e1 = []"
    using action_only(1) first_call_checks_events [of env _ None h1 e1]
    by (cases "called_once h") auto
  with get_args_events [OF action_only(2)] try_block_events [OF action_only(3)] action_only(4,5)
  have "super_redirects evs = [] \<and> super_redirects [] = [] \<and> stage_names After [] = []
      \<and> evs = evs \<and> (called_once h \<or> out \<noteq> Completed)"
    by simp
  then show ?thesis by blast
next
  case (full a kw h1 e1 h2 e2 ex h3 e3 e4)
  have s123: "super_redirects (e1 @ e2 @ e3) = []"
    using first_call_checks_events [OF full(2)] get_args_events [OF full(3)]
      try_block_events [OF full(4)] by simp
  have c123: "constructed (e1 @ e2 @ e3) = map mw_name (rev ex)"
    using first_call_checks_events [OF full(2)] get_args_events [OF full(3)]
      try_block_events [OF full(4), of Before] by simp
  have a123: "stage_names After (e1 @ e2 @ e3) = []"
    using first_call_checks_events [OF full(2)] get_args_events [OF full(3)]
      try_block_events [OF full(4), of After] by simp
  have r3: "redirection h3 = pending_after (redirect_requests (e1 @ e2 @ e3)) (redirection h)"
    using first_call_checks_fields [OF full(2)] get_args_fields [OF full(3)]
      get_args_events [OF full(3)] try_block_fields [OF full(4)] by simp
  from full(5) show ?thesis
  proof (cases rule: after_phase_cases)
    case stopped
    from stage_loop_events [OF stopped(1)] s123 full(6) stopped(2)
    have "super_redirects evs = [] \<and> super_redirects [] = [] \<and> stage_names After [] = []
        \<and> evs = evs \<and> out \<noteq> Completed"
      by simp
    then show ?thesis by blast
  next
    case (cleanup h4 eA eF)
    let ?pre = "e1 @ e2 @ e3 @ eA"
    let ?tail = "(if finished h4 then [] else [Ev_super_finish]) @ eF"
    have 1: "super_redirects ?pre = []"
      using s123 stage_loop_events [OF cleanup(1)] by simp
    have 2: "super_redirects ?tail = [] \<and> stage_names After ?tail = []"
      using stage_loop_events [OF cleanup(2), of After] by simp
    have 3: "redirection h4 = pending_after (redirect_requests ?pre) (redirection h)"
      using r3 stage_loop_fields [OF cleanup(1)] by simp
    have 4: "evs = ?pre @ sent_redirect (pending_after (redirect_requests ?pre) (redirection h)) @ ?tail"
      using full(6) cleanup(3) 3 by simp
    have "constructed eA = [] \<and> constructed eF = []"
      using stage_loop_events [OF cleanup(1)] stage_loop_events [OF cleanup(2)] by simp
    then have 5: "constructed evs = map mw_name (rev ex)"
      using c123 full(6) cleanup(3) by simp
    have 6: "stage_names After ?pre = map mw_name ex"
      using a123 stage_loop_events [OF cleanup(1), of After] by simp
    from 1 2 4 5 6 full(1) show ?thesis
      by (intro exI [of _ ?pre] exI [of _ ?tail]) (simp add: rev_map)
  next
    case (refused eA)
    let ?pre = "e1 @ e2 @ e3 @ eA"
    have 1: "super_redirects ?pre = []"
      using s123 stage_loop_events [OF refused(1)] by simp
    have 3: "redirection h' = pending_after (redirect_requests ?pre) (redirection h)"
      using r3 stage_loop_fields [OF refused(1)] by simp
    have 4: "evs = ?pre @ sent_redirect (pending_after (redirect_requests ?pre) (redirection h)) @ []"
      using full(6) refused(5) 3 by simp
    have "constructed eA = []"
      using stage_loop_events [OF refused(1)] by simp
    then have 5: "constructed evs = map mw_name (rev ex)"
      using c123 full(6) refused(5) by simp
    have 6: "stage_names After ?pre = map mw_name ex"
      using a123 stage_loop_events [OF refused(1), of After] by simp
    from 1 4 5 6 full(1) show ?thesis
      by (intro exI [of _ ?pre] exI [of _ "[]"]) (simp add: rev_map)
  qed
qed



text \<open>
  C10. Each call of the redirect operation overwrites the pending directive. A dispatch
  sends at most one transport redirect, and the directive it sends is the last one
  recorded before the deferred step (the one pending when the dispatch began if none was
  recorded during it); a first call that completes does reach that step.
\<close>

theorem last_redirect_wins:
  assumes "execute env tr raw_args raw_kwargs h = (out, h', evs)"
  shows "redirection (fst (redirect a kw g)) = Some (a, kw)
     \<and> length (super_redirects evs) \<le> 1
     \<and> (\<exists>pre tail. super_redirects pre = [] \<and> super_redirects tail = []
          \<and> (evs = pre
              \<or> evs = pre @ sent_redirect (if redirect_requests pre = [] then redirection h
                                           else Some (last (redirect_requests pre))) @ tail)
          \<and> (\<not> called_once h \<and> out = Completed \<longrightarrow>
                evs = pre @ sent_redirect (if redirect_requests pre = [] then redirection h
                                           else Some (last (redirect_requests pre))) @ tail))"
proof -
  have 1: "redirection (fst (redirect a kw g)) = Some (a, kw)"
    by (simp add: redirect_def)
  from execute_redirect_shape [OF assms] obtain pre tail where
    s: "super_redirects pre = []" "super_redirects tail = []"
    "(evs = pre \<and> (called_once h \<or> out \<noteq> Completed))
        \<or> (evs = pre @ sent_redirect (pending_after (redirect_requests pre) (redirection h)) @ tail
            \<and> stage_names After pre = rev (constructed evs) \<and> \<not> called_once h)"
    by blast
  have p: "pending_after (redirect_requests pre) (redirection h) =
      (if redirect_requests pre = [] then redirection h else Some (last (redirect_requests pre)))"
    by (simp add: pending_after_def)
  from s have 2: "length (super_redirects evs) \<le> 1"
    by (auto split: option.splits)
  from s(3) p have 3: "(evs = pre
              \<or> evs = pre @ sent_redirect (if redirect_requests pre = [] then redirection h
                                           else Some (last (redirect_requests pre))) @ tail)
          \<and> (\<not> called_once h \<and> out = Completed \<longrightarrow>
                evs = pre @ sent_redirect (if redirect_requests pre = [] then redirection h
                                           else Some (last (redirect_requests pre))) @ tail)"
    by auto
  from 1 2 3 s(1,2) show ?thesis by blast
qed



theorem last_redirect_wins_witness:
  "\<not> called_once init_handler
   \<and> fst (execute redirecting_request [] [] [] init_handler) = Completed
   \<and> redirect_requests (snd (snd (execute redirecting_request [] [] [] init_handler)))
       = [([''/first''], []), ([''/second''], [])]
   \<and> super_redirects (snd (snd (execute redirecting_request [] [] [] init_handler)))
       = [([''/second''], [])]
   \<and> length (super_redirects (snd (snd (execute redirecting_request [] [] [] init_handler)))) \<le> 1
   \<and> (\<exists>pre tail. super_redirects pre = [] \<and> super_redirects tail = []
         \<and> snd (snd (execute redirecting_request [] [] [] init_handler))
             = pre @ sent_redirect (if redirect_requests pre = [] then redirection init_handler
                                    else Some (last (redirect_requests pre))) @ tail)"
proof -
  let ?x = "execute redirecting_request [] [] [] init_handler"
  have run: "?x = (fst ?x, fst (snd ?x), snd (snd ?x))"
    by simp
  have first: "\<not> called_once init_handler"
    by (simp add: init_handler_def)
  have c: "fst ?x = Completed"
    by code_simp
  have q: "redirect_requests (snd (snd ?x)) = [([''/first''], []), ([''/second''], [])]"
    by code_simp
  have r: "super_redirects (snd (snd ?x)) = [([''/second''], [])]"
    by code_simp
  from last_redirect_wins [OF run, of "[]" "[]" init_handler] first c
  have "length (super_redirects (snd (snd ?x))) \<le> 1
     \<and> (\<exists>pre tail. super_redirects pre = [] \<and> super_redirects tail = []
         \<and> snd (snd ?x)
             = pre @ sent_redirect (if redirect_requests pre = [] then redirection init_handler
                                    else Some (last (redirect_requests pre))) @ tail)"
    by blast
  with first c q r show ?thesis by blast
qed

section \<open>Re-entrant invocations\<close>

subsection \<open>preamble events\<close>

lemma no_preamble_notin: "preamble_events evs = [] \<Longrightarrow> is_preamble e \<Longrightarrow> e \<notin> set evs"
  by (auto simp: preamble_events_def filter_empty_conv)

lemma decode_args_only:
  "decode_args dec raw = (r, evs) \<Longrightarrow> \<forall>e\<in>set evs. \<exists>x n. e = Ev_decode_argument x n"
  by (induction raw arbitrary: r evs) (auto split: sum.splits prod.splits)

lemma decode_kwargs_only:
  "decode_kwargs dec raw = (r, evs) \<Longrightarrow> \<forall>e\<in>set evs. \<exists>x n. e = Ev_decode_argument x n"
  by (induction raw arbitrary: r evs) (auto split: sum.splits prod.splits)

lemma get_args_only:
  assumes "get_args env raw_args raw_kwargs h = (r, h', evs)"
  shows "\<forall>e\<in>set evs. \<exists>x n. e = Ev_decode_argument x n"
  using assms
  by (auto simp: get_args_def split: option.splits prod.splits sum.splits
      dest!: decode_args_only decode_kwargs_only)

lemma get_args_not_in:
  assumes "get_args env raw_args raw_kwargs h = (r, h', evs)"
  shows "Ev_prepare \<notin> set evs \<and> Ev_check_xsrf_cookie \<notin> set evs \<and> Ev_super_finish \<notin> set evs"
  using get_args_only [OF assms] by auto

lemma run_cmds_no_prepare [simp]:
  "Ev_prepare \<notin> set (snd (run_cmds cs h))" "Ev_check_xsrf_cookie \<notin> set (snd (run_cmds cs h))"
  by (rule no_preamble_notin; simp)+

lemma first_call_checks_prepare:
  assumes "first_call_checks env h = (err, h', evs)"
  shows "count_list evs Ev_prepare \<le> 1"
  using assms
  by (auto simp: first_call_checks_def Let_def split_beta count_list_0_iff
      split: if_splits func_result.splits)

lemma after_phase_fields:
  assumes "after_phase ex a kw h = (out, h', evs)"
  shows "called_once h' = called_once h \<and> cached_args h' = cached_args h
     \<and> (finished h \<longrightarrow> finished h') \<and> preamble_events evs = []"
  using assms
proof (cases rule: after_phase_cases)
  case stopped
  from stage_loop_fields [OF stopped(1)] stage_loop_events [OF stopped(1)] show ?thesis by simp
next
  case (cleanup h1 e1 e4)
  from stage_loop_fields [OF cleanup(1)] stage_loop_events [OF cleanup(1)]
    stage_loop_fields [OF cleanup(2)] stage_loop_events [OF cleanup(2)] cleanup(3)
  show ?thesis by (auto split: if_splits)
next
  case (refused e1)
  from stage_loop_fields [OF refused(1)] stage_loop_events [OF refused(1)] refused(5)
  show ?thesis by simp
qed

lemma try_block_action:
  assumes "try_block env rm a kw h = (out, ex, h', evs)"
  shows "(action_calls evs \<noteq> [] \<longrightarrow> getattr_self env (lower (request_method env)) \<noteq> None)
     \<and> (\<not> rm \<longrightarrow> action_calls evs =
          (case getattr_self env (lower (request_method env)) of
             None \<Rightarrow> [] | Some f \<Rightarrow> [(lower (request_method env), a, kw)]))"
proof -
  obtain o1 ex1 h1 e1 where
    b: "(if rm then before_loop (middleware env) a kw [] h else (Completed, [], h, [])) = (o1, ex1, h1, e1)"
    by (metis prod_cases4)
  have f1: "action_calls e1 = []"
    using b before_loop_events [of "middleware env" a kw "[]" h o1 ex1 h1 e1 Before]
    by (cases rm) auto
  from assms b f1 show ?thesis
    by (cases rm) (auto simp: try_block_def Task_eq split: outcome.splits option.splits)
qed

lemma execute_state:
  assumes "execute env tr raw_args raw_kwargs h = (out, h', evs)"
  shows "called_once h'
     \<and> count_list evs Ev_prepare \<le> 1
     \<and> (action_calls evs = []
        \<or> (\<exists>a kw. action_calls evs = [(lower (request_method env), a, kw)]
              \<and> cached_args h' = Some (a, kw)))"
  using assms
proof (cases rule: execute_cases)
  case (rejected e)
  from first_call_checks_fields [OF rejected(2)] first_call_checks_events [OF rejected(2)]
    first_call_checks_prepare [OF rejected(2)]
  show ?thesis by simp
next
  case (undecodable e h1 e1 e2)
  have 1: "called_once h1 \<and> action_calls e1 = [] \<and> count_list e1 Ev_prepare \<le> 1"
    using undecodable(1) first_call_checks_fields [of env _ None h1 e1]
      first_call_checks_events [of env _ None h1 e1] first_call_checks_prepare [of env _ None h1 e1]
    by (cases "called_once h") auto
  from 1 get_args_fields [OF undecodable(2)] get_args_events [OF undecodable(2)]
    get_args_not_in [OF undecodable(2)] undecodable(3)
  show ?thesis by (simp add: count_list_0_iff)
next
  case (action_only a kw h1 e1 h2 e2 ex e3)
  have 1: "called_once h1 \<and> action_calls e1 = [] \<and> count_list e1 Ev_prepare \<le> 1"
    using action_only(1) first_call_checks_fields [of env _ None h1 e1]
      first_call_checks_events [of env _ None h1 e1] first_call_checks_prepare [of env _ None h1 e1]
    by (cases "called_once h") auto
  have 3: "Ev_prepare \<notin> set e3"
    using try_block_events [OF action_only(3)] by (simp add: no_preamble_notin)
  from 1 3 get_args_fields [OF action_only(2)] get_args_events [OF action_only(2)]
    get_args_not_in [OF action_only(2)] try_block_fields [OF action_only(3)]
    try_block_events [OF action_only(3)] action_only(4)
  show ?thesis by (auto simp: count_list_0_iff)
next
  case (full a kw h1 e1 h2 e2 ex h3 e3 e4)
  have 1: "called_once h1 \<and> action_calls e1 = [] \<and> count_list e1 Ev_prepare \<le> 1"
    using first_call_checks_fields [OF full(2)] first_call_checks_events [OF full(2)]
      first_call_checks_prepare [OF full(2)] by simp
  have 3: "Ev_prepare \<notin> set e3"
    using try_block_events [OF full(4)] by (simp add: no_preamble_notin)
  have 4: "Ev_prepare \<notin> set e4 \<and> action_calls e4 = []"
    using after_phase_fields [OF full(5)] after_phase_names [OF full(5)]
    by (simp add: no_preamble_notin)
  from 1 3 4 get_args_fields [OF full(3)] get_args_events [OF full(3)]
    get_args_not_in [OF full(3)] try_block_fields [OF full(4)]
    try_block_events [OF full(4)] after_phase_fields [OF full(5)] full(6)
  show ?thesis by (auto simp: count_list_0_iff)
qed

lemma execute_reentrant:
  assumes "called_once h" and "execute env tr raw_args raw_kwargs h = (out, h', evs)"
  obtains (undecodable) e where
      "get_args env raw_args raw_kwargs (h\<lparr>transforms := tr, called_once := True\<rparr>) = (Inl e, h', evs)"
      "out = Raised e"
  | (action) a kw h2 e2 ex e3 where
      "get_args env raw_args raw_kwargs (h\<lparr>transforms := tr, called_once := True\<rparr>) = (Inr (a, kw), h2, e2)"
      "try_block env False a kw h2 = (out, ex, h', e3)"
      "evs = e2 @ e3"
  using assms(2)
proof (cases rule: execute_cases)
  case (rejected e)
  with assms(1) show ?thesis by simp
next
  case (undecodable e h1 e1 e2)
  with assms(1) that(1) show ?thesis by simp
next
  case (action_only a kw h1 e1 h2 e2 ex e3)
  with assms(1) that(2) show ?thesis by simp
next
  case (full a kw h1 e1 h2 e2 ex h3 e3 e4)
  with assms(1) show ?thesis by simp
qed


text \<open>
  C6. An invocation of the executor on a handler whose has-run-once flag is set and whose
  argument cache is filled (as it is once a first invocation has decoded the arguments)
  calls neither \<^verbatim>\<open>check_xsrf_cookie\<close>, nor \<^verbatim>\<open>prepare\<close>, nor \<^verbatim>\<open>decode_argument\<close>,
  constructs no middleware and enters no \<^verbatim>\<open>before\<close> stage, keeps the cache, and calls
  the action with the cached arguments whatever raw arguments it was given. If the
  handler state was left by an earlier invocation for the same request, \<^verbatim>\<open>prepare\<close> has
  run at most once over both, and the action of the earlier invocation, if it was called,
  saw the same arguments.
\<close>

theorem reentrant_call_reuses_cached_args:
  assumes flag: "called_once h"
    and cached: "cached_args h = Some (a, kw)"
    and run: "execute env tr raw_args raw_kwargs h = (out, h', evs)"
  shows "preamble_events evs = []
     \<and> constructed evs = [] \<and> stage_names Before evs = []
     \<and> cached_args h' = Some (a, kw)
     \<and> action_calls evs =
          (case getattr_self env (lower (request_method env)) of
             None \<Rightarrow> [] | Some f \<Rightarrow> [(lower (request_method env), a, kw)])
     \<and> (\<forall>tr0 raw_args0 raw_kwargs0 g out0 evs0.
          execute env tr0 raw_args0 raw_kwargs0 g = (out0, h, evs0) \<longrightarrow>
            count_list (evs0 @ evs) Ev_prepare \<le> 1
            \<and> (action_calls evs0 = []
                \<or> action_calls evs0 = [(lower (request_method env), a, kw)]))"
proof -
  from flag run have main: "preamble_events evs = []
     \<and> constructed evs = [] \<and> stage_names Before evs = []
     \<and> cached_args h' = Some (a, kw)
     \<and> action_calls evs =
          (case getattr_self env (lower (request_method env)) of
             None \<Rightarrow> [] | Some f \<Rightarrow> [(lower (request_method env), a, kw)])"
  proof (cases rule: execute_reentrant)
    case (undecodable e)
    from get_args_fields [OF undecodable(1)] cached show ?thesis by simp
  next
    case (action b kwb h2 e2 ex e3)
    from get_args_fields [OF action(1)] cached
    have g: "b = a \<and> kwb = kw \<and> e2 = [] \<and> cached_args h2 = Some (a, kw)"
      by simp
    from g try_block_fields [OF action(2)] try_block_events [OF action(2), of Before]
      try_block_action [OF action(2)] action(3)
    show ?thesis by auto
  qed
  have prev: "\<And>tr0 raw_args0 raw_kwargs0 g out0 evs0.
          execute env tr0 raw_args0 raw_kwargs0 g = (out0, h, evs0) \<Longrightarrow>
            count_list (evs0 @ evs) Ev_prepare \<le> 1
            \<and> (action_calls evs0 = []
                \<or> action_calls evs0 = [(lower (request_method env), a, kw)])"
  proof -
    fix tr0 raw_args0 raw_kwargs0 g out0 evs0
    assume e0: "execute env tr0 raw_args0 raw_kwargs0 g = (out0, h, evs0)"
    from main have "Ev_prepare \<notin> set evs"
      by (simp add: no_preamble_notin)
    then have "count_list evs Ev_prepare = 0"
      by (simp add: count_list_0_iff)
    with execute_state [OF e0] cached
    show "count_list (evs0 @ evs) Ev_prepare \<le> 1
            \<and> (action_calls evs0 = []
                \<or> action_calls evs0 = [(lower (request_method env), a, kw)])"
      by auto
  qed
  from main prev show ?thesis by blast
qed

text \<open>
  C9. An invocation of the executor with the has-run-once flag already set is the
  argument lookup followed by the action Task and nothing else: it enters no
  \<^verbatim>\<open>before\<close>, \<^verbatim>\<open>after\<close> or \<^verbatim>\<open>after_finish\<close> stage, constructs no middleware, sends no
  redirect, calls neither \<^verbatim>\<open>check_xsrf_cookie\<close> nor \<^verbatim>\<open>prepare\<close>, and the response is
  finalized during it only if the body of the action itself calls \<^verbatim>\<open>do_finish\<close>.
\<close>

theorem reentrant_call_runs_action_only:
  assumes flag: "called_once h"
    and run: "execute env tr raw_args raw_kwargs h = (out, h', evs)"
  shows "execute env tr raw_args raw_kwargs h =
          (case get_args env raw_args raw_kwargs (h\<lparr>transforms := tr, called_once := True\<rparr>) of
             (Inl e, h2, e2) \<Rightarrow> (Raised e, h2, e2)
           | (Inr (a, kw), h2, e2) \<Rightarrow>
               (case getattr_self env (lower (request_method env)) of
                  None \<Rightarrow> (Raised AttributeError, h2, e2)
                | Some f \<Rightarrow>
                    (let (out2, h3, e3) = Task (Action (lower (request_method env))) f a kw h2
                     in (except_InterruptRequest out2, h3, e2 @ e3))))
     \<and> (\<forall>st. stage_names st evs = []) \<and> constructed evs = [] \<and> super_redirects evs = []
     \<and> Ev_check_xsrf_cookie \<notin> set evs \<and> Ev_prepare \<notin> set evs
     \<and> (Ev_super_finish \<in> set evs \<longrightarrow>
          (\<exists>f. getattr_self env (lower (request_method env)) = Some f
               \<and> Call_do_finish \<in> set (func_cmds f)))
     \<and> (finished h' \<longrightarrow> finished h
          \<or> (\<exists>f. getattr_self env (lower (request_method env)) = Some f
               \<and> Call_do_finish \<in> set (func_cmds f)))"
proof -
  have eq: "execute env tr raw_args raw_kwargs h =
          (case get_args env raw_args raw_kwargs (h\<lparr>transforms := tr, called_once := True\<rparr>) of
             (Inl e, h2, e2) \<Rightarrow> (Raised e, h2, e2)
           | (Inr (a, kw), h2, e2) \<Rightarrow>
               (case getattr_self env (lower (request_method env)) of
                  None \<Rightarrow> (Raised AttributeError, h2, e2)
                | Some f \<Rightarrow>
                    (let (out2, h3, e3) = Task (Action (lower (request_method env))) f a kw h2
                     in (except_InterruptRequest out2, h3, e2 @ e3))))"
    using flag
    by (auto simp: execute_def try_block_def split_beta Let_def
        split: prod.splits sum.splits option.splits outcome.splits)
  from flag run have rest: "(\<forall>st. stage_names st evs = []) \<and> constructed evs = [] \<and> super_redirects evs = []
     \<and> Ev_check_xsrf_cookie \<notin> set evs \<and> Ev_prepare \<notin> set evs
     \<and> (Ev_super_finish \<in> set evs \<longrightarrow>
          (\<exists>f. getattr_self env (lower (request_method env)) = Some f
               \<and> Call_do_finish \<in> set (func_cmds f)))
     \<and> (finished h' \<longrightarrow> finished h
          \<or> (\<exists>f. getattr_self env (lower (request_method env)) = Some f
               \<and> Call_do_finish \<in> set (func_cmds f)))"
  proof (cases rule: execute_reentrant)
    case (undecodable e)
    from get_args_events [OF undecodable(1)] get_args_not_in [OF undecodable(1)]
      get_args_fields [OF undecodable(1)]
    show ?thesis by simp
  next
    case (action a kw h2 e2 ex e3)
    have 2: "(\<forall>st. stage_names st e2 = []) \<and> constructed e2 = [] \<and> super_redirects e2 = []
        \<and> Ev_check_xsrf_cookie \<notin> set e2 \<and> Ev_prepare \<notin> set e2 \<and> Ev_super_finish \<notin> set e2
        \<and> finished h2 = finished h"
      using get_args_events [OF action(1)] get_args_not_in [OF action(1)]
        get_args_fields [OF action(1)] by simp
    have 3: "(\<forall>st. stage_names st e3 = []) \<and> constructed e3 = [] \<and> super_redirects e3 = []
        \<and> Ev_check_xsrf_cookie \<notin> set e3 \<and> Ev_prepare \<notin> set e3"
    proof -
      have "\<And>st. stage_names st e3 = []"
        using try_block_events [OF action(2)] by simp
      with try_block_events [OF action(2), of Before] show ?thesis
        by (simp add: no_preamble_notin)
    qed
    have 4: "(Ev_super_finish \<in> set e3 \<longrightarrow>
          (\<exists>f. getattr_self env (lower (request_method env)) = Some f
               \<and> Call_do_finish \<in> set (func_cmds f)))
       \<and> (finished h' \<longrightarrow> finished h2
          \<or> (\<exists>f. getattr_self env (lower (request_method env)) = Some f
               \<and> Call_do_finish \<in> set (func_cmds f)))"
      using action(2)
      by (auto simp: try_block_def Task_eq run_cmds_super_finish run_cmds_finished_iff
          split: option.splits if_splits)
    from 2 3 4 action(3) show ?thesis by auto
  qed
  from eq rest show ?thesis by blast
qed


theorem reentrant_call_reuses_cached_args_witness:
  "called_once (fst (snd (execute decoding_request [] [''7''] [(''k'', ''v'')] init_handler)))
   \<and> cached_args (fst (snd (execute decoding_request [] [''7''] [(''k'', ''v'')] init_handler)))
       = Some ([''7!''], [(''k'', ''v!'')])
   \<and> action_calls (snd (snd (execute decoding_request [] [''7''] [(''k'', ''v'')] init_handler)))
       = [(''get'', [''7!''], [(''k'', ''v!'')])]
   \<and> action_calls (snd (snd (execute decoding_request [] [''8''] []
         (fst (snd (execute decoding_request [] [''7''] [(''k'', ''v'')] init_handler)))))) 
       = [(''get'', [''7!''], [(''k'', ''v!'')])]
   \<and> preamble_events (snd (snd (execute decoding_request [] [''8''] []
         (fst (snd (execute decoding_request [] [''7''] [(''k'', ''v'')] init_handler)))))) = []
   \<and> count_list
        (snd (snd (execute decoding_request [] [''7''] [(''k'', ''v'')] init_handler))
         @ snd (snd (execute decoding_request [] [''8''] []
             (fst (snd (execute decoding_request [] [''7''] [(''k'', ''v'')] init_handler))))))
        Ev_prepare \<le> 1"
proof -
  let ?x1 = "execute decoding_request [] [''7''] [(''k'', ''v'')] init_handler"
  let ?h1 = "fst (snd ?x1)"
  let ?x2 = "execute decoding_request [] [''8''] [] ?h1"
  have flag: "called_once ?h1"
    by code_simp
  have cached: "cached_args ?h1 = Some ([''7!''], [(''k'', ''v!'')])"
    by code_simp
  have run1: "?x1 = (fst ?x1, ?h1, snd (snd ?x1))"
    by simp
  have run2: "?x2 = (fst ?x2, fst (snd ?x2), snd (snd ?x2))"
    by simp
  have a1: "action_calls (snd (snd ?x1)) = [(''get'', [''7!''], [(''k'', ''v!'')])]"
    by code_simp
  have g: "getattr_self decoding_request (lower (request_method decoding_request)) = Some noop"
    by code_simp
  have l: "lower (request_method decoding_request) = ''get''"
    by code_simp
  from reentrant_call_reuses_cached_args [OF flag cached run2]
  have "preamble_events (snd (snd ?x2)) = []
     \<and> action_calls (snd (snd ?x2)) =
          (case getattr_self decoding_request (lower (request_method decoding_request)) of
             None \<Rightarrow> []
           | Some f \<Rightarrow> [(lower (request_method decoding_request), [''7!''], [(''k'', ''v!'')])])
     \<and> (execute decoding_request [] [''7''] [(''k'', ''v'')] init_handler = (fst ?x1, ?h1, snd (snd ?x1)) \<longrightarrow>
            count_list (snd (snd ?x1) @ snd (snd ?x2)) Ev_prepare \<le> 1)"
    by blast
  with run1 g l flag cached a1 show ?thesis by simp
qed

theorem reentrant_call_runs_action_only_witness:
  "called_once (fst (snd (execute redirecting_request [] [] [] init_handler)))
   \<and> redirection (fst (snd (execute redirecting_request [] [] [] init_handler))) = Some ([''/second''], [])
   \<and> action_calls (snd (snd (execute redirecting_request [] [] []
         (fst (snd (execute redirecting_request [] [] [] init_handler)))))) = [(''get'', [], [])]
   \<and> stage_names Before (snd (snd (execute redirecting_request [] [] []
         (fst (snd (execute redirecting_request [] [] [] init_handler)))))) = []
   \<and> stage_names After (snd (snd (execute redirecting_request [] [] []
         (fst (snd (execute redirecting_request [] [] [] init_handler)))))) = []
   \<and> stage_names After_finish (snd (snd (execute redirecting_request [] [] []
         (fst (snd (execute redirecting_request [] [] [] init_handler)))))) = []
   \<and> super_redirects (snd (snd (execute redirecting_request [] [] []
         (fst (snd (execute redirecting_request [] [] [] init_handler)))))) = []
   \<and> Ev_super_finish \<notin> set (snd (snd (execute redirecting_request [] [] []
         (fst (snd (execute redirecting_request [] [] [] init_handler))))))"
proof -
  let ?h1 = "fst (snd (execute redirecting_request [] [] [] init_handler))"
  let ?x2 = "execute redirecting_request [] [] [] ?h1"
  have flag: "called_once ?h1"
    by code_simp
  have r: "redirection ?h1 = Some ([''/second''], [])"
    by code_simp
  have run2: "?x2 = (fst ?x2, fst (snd ?x2), snd (snd ?x2))"
    by simp
  have a2: "action_calls (snd (snd ?x2)) = [(''get'', [], [])]"
    by code_simp
  have g: "getattr_self redirecting_request (lower (request_method redirecting_request)) =
      Some (Func [Call_redirect [''/first''] []]
        (Return_generator (Gen_yield (Gen_do (Call_redirect [''/second''] []) Stop_iteration))))"
    by code_simp
  have nf: "\<not> (\<exists>f. getattr_self redirecting_request (lower (request_method redirecting_request)) = Some f
               \<and> Call_do_finish \<in> set (func_cmds f))"
    by (simp add: g func_cmds_def)
  from reentrant_call_runs_action_only [OF flag run2] nf
  have "(\<forall>st. stage_names st (snd (snd ?x2)) = []) \<and> super_redirects (snd (snd ?x2)) = []
      \<and> Ev_super_finish \<notin> set (snd (snd ?x2))"
    by blast
  with flag r a2 show ?thesis by simp
qed

section \<open>Finalizing the response\<close>

lemma ran_all_completed:
  "\<forall>m\<in>set ms. func_outcome (stage_func st m) = Completed \<Longrightarrow> ran st ms = ms"
  by (induction ms) simp_all

lemma stage_loop_all_completed:
  "stage_loop st ms a kw h = (out, h', evs) \<Longrightarrow>
     \<forall>m\<in>set ms. func_outcome (stage_func st m) = Completed \<Longrightarrow> out = Completed"
proof (induction ms arbitrary: h out h' evs)
  case Nil
  then show ?case by simp
next
  case (Cons m ms)
  obtain out2 h2 e2 where
    r: "stage_loop st ms a kw (fst (run_cmds (func_cmds (stage_func st m)) h)) = (out2, h2, e2)"
    by (metis prod_cases3)
  from Cons.prems have c: "func_outcome (stage_func st m) = Completed"
    and rest: "\<forall>m\<in>set ms. func_outcome (stage_func st m) = Completed"
    by simp_all
  from Cons.IH [OF r rest] Cons.prems(1) c r show ?case
    by (auto simp: Task_eq)
qed

lemma stage_loop_first:
  "stage_loop st (m # ms) a kw h = (out, h', evs) \<Longrightarrow>
     stage_names st evs \<noteq> [] \<and> hd (stage_names st evs) = mw_name m"
  by (auto simp: Task_eq split_beta split: outcome.splits)

text \<open>
  C8, as stated, fails in two ways. When the response is finalized and a redirect is
  pending, the deferred redirect of line 155 is refused by the base class (it raises once
  the headers are written), so lines 156--162 are not reached and no \<^verbatim>\<open>after_finish\<close>
  stage runs at all. And when the \<^verbatim>\<open>after_finish\<close> stage of the last-entered middleware
  raises, that of the middleware entered before it never runs.
\<close>

theorem no_after_finish_when_redirect_refused:
  "finished (fst (snd (execute finishing_redirecting_request [] [] [] init_handler)))
   \<and> fst (execute finishing_redirecting_request [] [] [] init_handler)
       = Raised (Exception ''Cannot redirect after headers have been written'')
   \<and> stage_names After (snd (snd (execute finishing_redirecting_request [] [] [] init_handler)))
       = [''m2'', ''m1'']
   \<and> stage_names After_finish (snd (snd (execute finishing_redirecting_request [] [] [] init_handler)))
       = []
   \<and> stage_names After (snd (snd (execute failing_after_finish_request [] [] [] init_handler)))
       = [''m2'', ''m1'']
   \<and> stage_names After_finish (snd (snd (execute failing_after_finish_request [] [] [] init_handler)))
       = [''m2'']
   \<and> count_list (snd (snd (execute failing_after_finish_request [] [] [] init_handler)))
        Ev_super_finish = 1"
  by code_simp

text \<open>
  C8, amended. In a first call that has come through the \<^verbatim>\<open>try\<close> statement and the AFTER
  loop with the finished flag set when that loop ends: if no redirect is pending, the
  rest of the dispatch is the AFTER\_FINISH loop over all entered middleware, and
  \<^verbatim>\<open>do_finish\<close> is not called before it; the loop enters the stage of the last-entered
  middleware first and goes on in reverse entry order as long as the stages complete, so
  it enters every one when each completes. If a redirect is pending, the base class
  refuses it: the dispatch ends with that exception and no \<^verbatim>\<open>after_finish\<close> stage runs.
\<close>

theorem finalize_skipped_when_finished:
  assumes first: "\<not> called_once h"
    and checks: "first_call_checks env (h\<lparr>transforms := tr, called_once := True\<rparr>) = (None, h1, e1)"
    and decoded: "get_args env raw_args raw_kwargs h1 = (Inr (a, kw), h2, e2)"
    and tried: "try_block env True a kw h2 = (Completed, executed, h3, e3)"
    and afters: "stage_loop After executed a kw h3 = (Completed, h4, e4)"
    and fin: "finished h4"
    and run: "execute env tr raw_args raw_kwargs h = (out, h', evs)"
  shows "map mw_name executed = rev (constructed evs)
     \<and> (redirection h4 = None \<longrightarrow>
          (\<exists>e5. stage_loop After_finish executed a kw h4 = (out, h', e5)
                \<and> evs = e1 @ e2 @ e3 @ e4 @ e5)
          \<and> prefix (stage_names After_finish evs) (rev (constructed evs))
          \<and> (executed \<noteq> [] \<longrightarrow>
                stage_names After_finish evs \<noteq> []
                \<and> hd (stage_names After_finish evs) = mw_name (hd executed))
          \<and> ((\<forall>m\<in>set executed. func_outcome (mw_after_finish m) = Completed) \<longrightarrow>
                stage_names After_finish evs = rev (constructed evs) \<and> out = Completed)
          \<and> finished h')
     \<and> (redirection h4 \<noteq> None \<longrightarrow>
          out = Raised (Exception ''Cannot redirect after headers have been written'')
          \<and> h' = h4
          \<and> evs = e1 @ e2 @ e3 @ e4 @ sent_redirect (redirection h4)
          \<and> stage_names After_finish evs = [])"
proof -
  have n1: "constructed e1 = [] \<and> stage_names After_finish e1 = []"
    using first_call_checks_events [OF checks] by simp
  have n2: "constructed e2 = [] \<and> stage_names After_finish e2 = []"
    using get_args_events [OF decoded] by simp
  have n3: "constructed e3 = map mw_name (rev executed) \<and> stage_names After_finish e3 = []"
    using try_block_events [OF tried, of After_finish] by simp
  have n4: "constructed e4 = [] \<and> stage_names After_finish e4 = []"
    using stage_loop_events [OF afters, of After_finish] by simp
  show ?thesis
  proof (cases "redirection h4 = None")
    case pending: False
    from afters fin pending have ap:
      "after_phase executed a kw h3 =
         (Raised (Exception ''Cannot redirect after headers have been written''), h4,
          e4 @ sent_redirect (redirection h4))"
      by (simp add: after_phase_def try_redirect_eq)
    from run first checks decoded tried ap
    have res: "out = Raised (Exception ''Cannot redirect after headers have been written'')"
      "h' = h4" "evs = e1 @ e2 @ e3 @ e4 @ sent_redirect (redirection h4)"
      by (auto simp: execute_def)
    from res n1 n2 n3 n4 pending show ?thesis
      by (auto simp: rev_map)
  next
    case none: True
    obtain out5 h5 e5 where
      af: "stage_loop After_finish executed a kw h4 = (out5, h5, e5)"
      by (metis prod_cases3)
    from afters fin none af have ap: "after_phase executed a kw h3 = (out5, h5, e4 @ e5)"
      by (simp add: after_phase_def try_redirect_eq sent_redirect_def)
    from run first checks decoded tried ap
    have res: "out = out5 \<and> h' = h5 \<and> evs = e1 @ e2 @ e3 @ e4 @ e5"
      by (simp add: execute_def)
    have n5: "constructed e5 = [] \<and> stage_names After_finish e5 = map mw_name (ran After_finish executed)"
      using stage_loop_events [OF af, of After_finish] by simp
    from res n1 n2 n3 n4 n5
    have cons: "map mw_name executed = rev (constructed evs)"
      and names: "stage_names After_finish evs = stage_names After_finish e5"
      and names': "stage_names After_finish evs = map mw_name (ran After_finish executed)"
      by (simp_all add: rev_map)
    have p: "prefix (stage_names After_finish evs) (rev (constructed evs))"
      using names' cons ran_names_prefix [of After_finish executed] by simp
    have hd: "executed \<noteq> [] \<longrightarrow>
          stage_names After_finish evs \<noteq> []
          \<and> hd (stage_names After_finish evs) = mw_name (hd executed)"
    proof
      assume "executed \<noteq> []"
      then obtain m ms where "executed = m # ms" by (cases executed) auto
      with af stage_loop_first [of After_finish m ms a kw h4 out5 h5 e5] names
      show "stage_names After_finish evs \<noteq> []
          \<and> hd (stage_names After_finish evs) = mw_name (hd executed)"
        by simp
    qed
    have all: "(\<forall>m\<in>set executed. func_outcome (mw_after_finish m) = Completed) \<longrightarrow>
          stage_names After_finish evs = rev (constructed evs) \<and> out = Completed"
    proof
      assume c: "\<forall>m\<in>set executed. func_outcome (mw_after_finish m) = Completed"
      then have c': "\<forall>m\<in>set executed. func_outcome (stage_func After_finish m) = Completed"
        by simp
      from ran_all_completed [OF c'] stage_loop_all_completed [OF af c'] names' cons res
      show "stage_names After_finish evs = rev (constructed evs) \<and> out = Completed"
        by simp
    qed
    have f: "finished h'"
      using stage_loop_fields [OF af] fin res by simp
    from af res cons p hd all f none show ?thesis by blast
  qed
qed

text \<open>For comparison: with the flag not set, \<^verbatim>\<open>do_finish\<close> is called at that place.\<close>

lemma finalize_when_not_finished:
  assumes first: "\<not> called_once h"
    and checks: "first_call_checks env (h\<lparr>transforms := tr, called_once := True\<rparr>) = (None, h1, e1)"
    and decoded: "get_args env raw_args raw_kwargs h1 = (Inr (a, kw), h2, e2)"
    and tried: "try_block env True a kw h2 = (Completed, executed, h3, e3)"
    and afters: "stage_loop After executed a kw h3 = (Completed, h4, e4)"
    and fin: "\<not> finished h4"
    and run: "execute env tr raw_args raw_kwargs h = (out, h', evs)"
  shows "\<exists>e5. stage_loop After_finish executed a kw (h4\<lparr>finished := True\<rparr>) = (out, h', e5)
            \<and> evs = e1 @ e2 @ e3 @ e4 @ sent_redirect (redirection h4) @ [Ev_super_finish] @ e5"
proof -
  obtain out5 h5 e5 where
    af: "stage_loop After_finish executed a kw (h4\<lparr>finished := True\<rparr>) = (out5, h5, e5)"
    by (metis prod_cases3)
  from afters fin af have ap:
    "after_phase executed a kw h3 =
       (out5, h5, e4 @ sent_redirect (redirection h4) @ [Ev_super_finish] @ e5)"
    by (simp add: after_phase_def try_redirect_eq do_finish_def)
  from run first checks decoded tried ap af show ?thesis
    by (simp add: execute_def)
qed

theorem finalize_skipped_when_finished_witness:
  "\<not> called_once init_handler
   \<and> finished (fst (snd (stage_loop After [Middleware ''m2'', Middleware ''m1''] [] []
        (fst (snd (snd (try_block finishing_request True [] []
          (init_handler\<lparr>transforms := [], called_once := True, cached_args := Some ([], [])\<rparr>))))))))
   \<and> redirection (fst (snd (stage_loop After [Middleware ''m2'', Middleware ''m1''] [] []
        (fst (snd (snd (try_block finishing_request True [] []
          (init_handler\<lparr>transforms := [], called_once := True, cached_args := Some ([], [])\<rparr>)))))))) = None
   \<and> fst (execute finishing_request [] [] [] init_handler) = Completed
   \<and> stage_names After_finish (snd (snd (execute finishing_request [] [] [] init_handler)))
       = [''m2'', ''m1'']
   \<and> count_list (snd (snd (execute finishing_request [] [] [] init_handler))) Ev_super_finish = 1
   \<and> action_calls (snd (snd (execute finishing_request [] [] [] init_handler))) = [(''get'', [], [])]"
proof -
  let ?h0 = "init_handler\<lparr>transforms := [], called_once := True\<rparr>"
  let ?c = "first_call_checks finishing_request ?h0"
  let ?g = "get_args finishing_request [] [] ?h0"
  let ?h2 = "init_handler\<lparr>transforms := [], called_once := True, cached_args := Some ([], [])\<rparr>"
  let ?t = "try_block finishing_request True [] [] ?h2"
  let ?ex = "[Middleware ''m2'', Middleware ''m1'']"
  let ?s = "stage_loop After ?ex [] [] (fst (snd (snd ?t)))"
  let ?x = "execute finishing_request [] [] [] init_handler"
  have first: "\<not> called_once init_handler"
    by (simp add: init_handler_def)
  have "fst ?c = None \<and> fst (snd ?c) = ?h0"
    by code_simp
  then have checks: "?c = (None, ?h0, snd (snd ?c))"
    by (metis prod.collapse)
  have "fst ?g = Inr ([], []) \<and> fst (snd ?g) = ?h2"
    by code_simp
  then have decoded: "?g = (Inr ([], []), ?h2, snd (snd ?g))"
    by (metis prod.collapse)
  have "fst ?t = Completed \<and> fst (snd ?t) = ?ex"
    by code_simp
  then have tried: "?t = (Completed, ?ex, fst (snd (snd ?t)), snd (snd (snd ?t)))"
    by (metis prod.collapse)
  have "fst ?s = Completed"
    by code_simp
  then have afters: "?s = (Completed, fst (snd ?s), snd (snd ?s))"
    by (metis prod.collapse)
  have fin: "finished (fst (snd ?s))"
    by code_simp
  have none: "redirection (fst (snd ?s)) = None"
    by code_simp
  have run: "?x = (fst ?x, fst (snd ?x), snd (snd ?x))"
    by simp
  have c: "constructed (snd (snd ?x)) = [''m1'', ''m2'']"
    by code_simp
  have k: "count_list (snd (snd ?x)) Ev_super_finish = 1"
    by code_simp
  have ac: "action_calls (snd (snd ?x)) = [(''get'', [], [])]"
    by code_simp
  have all: "\<forall>m\<in>set ?ex. func_outcome (mw_after_finish m) = Completed"
    by (simp add: Middleware_def noop_def func_outcome_def)
  from finalize_skipped_when_finished [OF first checks decoded tried afters fin run] all none
  have "stage_names After_finish (snd (snd ?x)) = rev (constructed (snd (snd ?x)))
      \<and> fst ?x = Completed"
    by blast
  with first fin none c k ac show ?thesis by simp
qed

end
